theory Spec2Isabelle
  imports Main "HOL-Library.Word"
begin

unbundle bit_operations_syntax

section \<open>Strings of the Go standard library\<close>

text \<open>
  A Go string is a sequence of bytes; \<open>string\<close> (a list of 8-bit characters) models it
  byte for byte. The three library functions the listing code calls are modelled after
  their documentation: \<open>strings.Split\<close> (with a one-byte separator, the only use in
  the source), \<open>strings.TrimSpace\<close> and \<open>strings.Join\<close>.
\<close>

text \<open>
  \<open>strings.Split(s, sep)\<close> for a separator of one byte: the pieces between the
  separators, in order; a string without separator is the only piece, the empty string
  included.
\<close>

fun splitByte :: "char \<Rightarrow> string \<Rightarrow> string \<Rightarrow> string list" where
  "splitByte c piece [] = [piece]"
| "splitByte c piece (x # xs) =
     (if x = c then piece # splitByte c [] xs else splitByte c (piece @ [x]) xs)"

definition Split :: "string \<Rightarrow> char \<Rightarrow> string list" where
  "Split s c = splitByte c [] s"

text \<open>
  The UTF-8 encodings of the code points \<open>unicode.IsSpace\<close> accepts: tab, line feed,
  vertical tab, form feed, carriage return, space, U+0085, U+00A0, U+1680,
  U+2000 to U+200A, U+2028, U+2029, U+202F, U+205F and U+3000.
\<close>

definition spaceRunes :: "string list" where
  "spaceRunes =
    [[CHR 0x09], [CHR 0x0A], [CHR 0x0B], [CHR 0x0C], [CHR 0x0D], [CHR 0x20],
     [CHR 0xC2, CHR 0x85], [CHR 0xC2, CHR 0xA0],
     [CHR 0xE1, CHR 0x9A, CHR 0x80],
     [CHR 0xE2, CHR 0x80, CHR 0x80], [CHR 0xE2, CHR 0x80, CHR 0x81],
     [CHR 0xE2, CHR 0x80, CHR 0x82], [CHR 0xE2, CHR 0x80, CHR 0x83],
     [CHR 0xE2, CHR 0x80, CHR 0x84], [CHR 0xE2, CHR 0x80, CHR 0x85],
     [CHR 0xE2, CHR 0x80, CHR 0x86], [CHR 0xE2, CHR 0x80, CHR 0x87],
     [CHR 0xE2, CHR 0x80, CHR 0x88], [CHR 0xE2, CHR 0x80, CHR 0x89],
     [CHR 0xE2, CHR 0x80, CHR 0x8A],
     [CHR 0xE2, CHR 0x80, CHR 0xA8], [CHR 0xE2, CHR 0x80, CHR 0xA9],
     [CHR 0xE2, CHR 0x80, CHR 0xAF], [CHR 0xE2, CHR 0x81, CHR 0x9F],
     [CHR 0xE3, CHR 0x80, CHR 0x80]]"

text \<open>
  \<open>dropLeading es s\<close> removes the first member of \<open>es\<close> that \<open>s\<close> starts with (an
  empty member removes nothing and is passed over); \<open>trimLeading\<close> repeats it until
  none is left in front.
\<close>

fun dropLeading :: "string list \<Rightarrow> string \<Rightarrow> string option" where
  "dropLeading [] s = None"
| "dropLeading ([] # es) s = dropLeading es s"
| "dropLeading ((c # e) # es) s =
     (if take (Suc (length e)) s = c # e then Some (drop (Suc (length e)) s)
      else dropLeading es s)"

lemma dropLeading_shorter: "dropLeading es s = Some t \<Longrightarrow> length t < length s"
proof (induction es s rule: dropLeading.induct)
  case (3 c e es s)
  show ?case
  proof (cases "take (Suc (length e)) s = c # e")
    case True
    then have "s \<noteq> []" by auto
    moreover from True "3.prems" have "t = drop (Suc (length e)) s" by simp
    ultimately show ?thesis by (cases s) auto
  next
    case False
    with 3 show ?thesis by simp
  qed
qed simp_all

function trimLeading :: "string list \<Rightarrow> string \<Rightarrow> string" where
  "trimLeading es s = (case dropLeading es s of None \<Rightarrow> s | Some t \<Rightarrow> trimLeading es t)"
  by pat_completeness auto
termination
  by (relation "measure (\<lambda>(es, s). length s)") (auto dest: dropLeading_shorter)

declare trimLeading.simps [simp del]

text \<open>
  \<open>strings.TrimSpace\<close>: the white space in front is removed, then the white space at
  the end (the same scan over the reversed bytes, with the encodings reversed).
\<close>

definition TrimSpace :: "string \<Rightarrow> string" where
  "TrimSpace s = rev (trimLeading (map rev spaceRunes) (rev (trimLeading spaceRunes s)))"

definition startsWithSpace :: "string \<Rightarrow> bool" where
  "startsWithSpace s = list_ex (\<lambda>e. take (length e) s = e) spaceRunes"

definition endsWithSpace :: "string \<Rightarrow> bool" where
  "endsWithSpace s = list_ex (\<lambda>e. take (length e) (rev s) = rev e) spaceRunes"

text \<open>\<open>strings.Join(elems, sep)\<close>.\<close>

fun Join :: "string list \<Rightarrow> string \<Rightarrow> string" where
  "Join [] sep = []"
| "Join [x] sep = x"
| "Join (x # y # ys) sep = x @ sep @ Join (y # ys) sep"

section \<open>Options and the sort keys\<close>

text \<open>
  The fields of \<open>Options\<close> the listing code reads. \<open>Meta\<close> is a pointer to a map from
  keys to lists of values: \<open>None\<close> is the nil pointer.
\<close>

record Options =
  Depth :: int
  TypeMask :: int
  InTrashOpt :: bool
  Hidden :: bool
  Path :: string
  PageSize :: int
  Sources :: "string list"
  Meta :: "(string \<rightharpoonup> string list) option"

text \<open>
  The keys of \<open>Meta\<close> are constants of the package that this file only names; they are
  parameters of the model.
\<close>

record metaKeys =
  SortKey :: string
  SkipMimeKeyKey :: string
  MatchMimeKeyKey :: string
  ExactTitleKey :: string
  ExactOwnerKey :: string
  MatchOwnerKey :: string
  NotOwnerKey :: string

text \<open>
  \<open>sorters\<close> (list.go, lines 42 to 66). The two nested loops append to \<open>sortKeys\<close>;
  the accumulator is the slice.
\<close>

fun appendTrimmed :: "string list \<Rightarrow> string list \<Rightarrow> string list" where
  "appendTrimmed sortKeys [] = sortKeys"
| "appendTrimmed sortKeys (split # splits) =
     appendTrimmed (sortKeys @ [TrimSpace split]) splits"

fun appendSplit :: "string list \<Rightarrow> string list \<Rightarrow> string list" where
  "appendSplit sortKeys [] = sortKeys"
| "appendSplit sortKeys (attr # retr) =
     appendSplit (appendTrimmed sortKeys (Split attr CHR '',''))  retr"

definition sorters :: "metaKeys \<Rightarrow> Options option \<Rightarrow> string list" where
  "sorters k opts =
     (case opts of
        None \<Rightarrow> []
      | Some os \<Rightarrow>
          (case Meta os of
             None \<Rightarrow> []
           | Some meta \<Rightarrow>
               (case meta (SortKey k) of
                  None \<Rightarrow> []
                | Some retr \<Rightarrow> appendSplit [] retr)))"

section \<open>Files, errors and the page source\<close>

text \<open>
  An error value of the remote: the sentinel \<open>ErrPathNotExists\<close> that \<open>List\<close>
  compares against, any other error (named by its message), and the error
  \<open>fmt.Errorf("%v: '%s'", rErr, relPath)\<close> builds from an error and a path.
\<close>

datatype error = ErrPathNotExists | Err string | Errorf error string

text \<open>
  What one round of the \<open>select\<close> over a pagination pair receives: a value of the
  errors channel (nil or an error) or a value of the files channel (nil or a file).
  The list of events a consumer sees ends where the files channel is closed: the page
  source closes it after finitely many events, in whatever order the \<open>select\<close> took
  them. (A pair that is never closed blocks its consumer for ever; that is outside the
  model.)
\<close>

datatype 'f chanEvent = ErrRecv "error option" | FileRecv "'f option"

text \<open>
  A remote file with the fields the listing code reads. \<open>UserPermission\<close> is the role
  of the permission, \<open>None\<close> for the nil pointer. \<open>listing\<close> is what the page source
  delivers when the children of the file are requested: within one traversal the mask,
  the trash flag and the match query of every request are those of the root, so the
  answer depends on the directory alone. The remote is a finite tree: no directory is
  listed below itself.
\<close>

datatype File = File
  (FileId: string) (Name: string) (IsDir: bool) (Shared: bool) (Size: int)
  (ModTime: string) (Version: int) (OwnerNames: "string list")
  (UserPermission: "string option") (listing: "File chanEvent list")

fun setName :: "File \<Rightarrow> string \<Rightarrow> File" where
  "setName (File i n d s z m v os p l) n' = File i n' d s z m v os p l"

record attribute =
  minimal :: bool
  attrMask :: int
  parent :: string
  diskUsageOnlyAttr :: bool

datatype fuzziness = Is | Like | NotLevel | NotIn

datatype joiner = And | Or

record fuzzyStringsValuePair =
  fuzzyLevel :: fuzziness
  vals :: "string list"
  inTrashPair :: bool
  joiner :: joiner

record matchQuery =
  dirPath :: string
  inTrashQuery :: bool
  mimeQuerySearches :: "fuzzyStringsValuePair list"
  titleSearches :: "fuzzyStringsValuePair list"
  ownerSearches :: "fuzzyStringsValuePair list"

record traversalSt =
  travFile :: File
  headPath :: string
  depth :: int
  travMask :: int
  inTrash :: bool
  explicitNoPrompt :: bool
  sortKeys :: "string list"
  matchQueryOf :: "matchQuery option"

text \<open>
  The calls the listing code makes on its collaborators, in order: the trace of a run.
  \<open>Pretty f opt\<close> is the call \<open>f.pretty(g.log, opt)\<close>; \<open>Paginate f\<close> is the request for
  the children of \<open>f\<close> that \<open>paginator\<close> (lines 383 to 409) builds, a files or a team
  drives request by the mask, with the query of the state, whose pair of channels
  delivers \<open>listing f\<close>; \<open>Prompt b\<close> is a call of \<open>nextPage()\<close> that returned \<open>b\<close>;
  the others are the busy indicator (\<open>play\<close>, \<open>pause\<close>, \<open>stop\<close>) and the lines of the log:
  \<open>LogFetchErr\<close> (line 469), \<open>LogNotFound\<close> (line 209), \<open>LogSharedErr\<close> (line 271),
  \<open>LogNoMatches\<close> (line 123) and \<open>DebugList\<close> (line 203).
\<close>

datatype event =
    Pretty File attribute
  | Paginate File
  | Prompt bool
  | SpinPlay | SpinPause | SpinStop
  | LogFetchErr error
  | LogNotFound string
  | LogSharedErr error string
  | LogNoMatches
  | DebugList nat string

text \<open>The bits of the type mask: constants of the package, parameters here.\<close>

record maskBits =
  DiskUsageOnly :: int
  Minimal :: int
  Owners :: int
  CurrentVersion :: int
  SharedBit :: int
  InTrash :: int
  Starred :: int
  TeamDrives :: int

text \<open>
  What the listing code calls and this file does not define: the keys and bits above,
  the root markers, the hidden-file policy, the mask test \<open>nonFolderExplicitly\<close>, the
  size and quote formatters, the number of runes \<open>fmt\<close> pads a string by, the error
  wrapper, \<open>Options.canPrompt\<close>, the answers of \<open>nextPage()\<close> (the n-th call returns
  \<open>nextPage n\<close>), and the orders that \<open>Commands.sort\<close> knows by name.
\<close>

record extern =
  keys :: metaKeys
  bits :: maskBits
  rootSentinel :: string
  remoteRootLike :: "string \<Rightarrow> bool"
  isHidden :: "string \<Rightarrow> bool \<Rightarrow> bool"
  nonFolderExplicitly :: "int \<Rightarrow> bool"
  prettyBytes :: "int \<Rightarrow> string"
  customQuote :: "string \<Rightarrow> string"
  runeCount :: "string \<Rightarrow> nat"
  illogicalStateErr :: "error \<Rightarrow> error"
  optsCanPrompt :: "Options \<Rightarrow> bool"
  nextPage :: "nat \<Rightarrow> bool"
  sortOrders :: "string \<Rightarrow> (File \<Rightarrow> File \<Rightarrow> bool) option"

record Commands =
  opts :: Options
  FindByPath :: "string \<Rightarrow> File option \<times> error option"
  FindById :: "string \<Rightarrow> File option \<times> error option"
  FindMatches :: "matchQuery \<Rightarrow> File chanEvent list"
  FindByPathShared :: "string \<Rightarrow> File chanEvent list"
  parentPather :: "string \<Rightarrow> string"

section \<open>Mask tests (list.go, lines 541 to 571)\<close>

definition diskUsageOnly :: "maskBits \<Rightarrow> int \<Rightarrow> bool" where
  "diskUsageOnly b m = ((m AND DiskUsageOnly b) \<noteq> 0)"

definition isMinimal :: "maskBits \<Rightarrow> int \<Rightarrow> bool" where
  "isMinimal b m = ((m AND Minimal b) \<noteq> 0)"

definition owners :: "maskBits \<Rightarrow> int \<Rightarrow> bool" where
  "owners b m = ((m AND Owners b) \<noteq> 0)"

definition version :: "maskBits \<Rightarrow> int \<Rightarrow> bool" where
  "version b m = ((m AND CurrentVersion b) \<noteq> 0)"

definition shared :: "maskBits \<Rightarrow> int \<Rightarrow> bool" where
  "shared b m = ((m AND SharedBit b) \<noteq> 0)"

definition trashed :: "maskBits \<Rightarrow> int \<Rightarrow> bool" where
  "trashed b m = ((m AND InTrash b) \<noteq> 0)"

definition starred :: "maskBits \<Rightarrow> int \<Rightarrow> bool" where
  "starred b m = ((m AND Starred b) \<noteq> 0)"

definition teamDrives :: "maskBits \<Rightarrow> int \<Rightarrow> bool" where
  "teamDrives b m = ((m AND TeamDrives b) \<noteq> 0)"

section \<open>Helpers of the package that this file calls\<close>

text \<open>
  Modelled from the spec: \<open>sepJoin\<close> is not in the source given; the spec has the
  display path made by "joining the current parent and the entry's name" with the
  separator: the arguments joined by the separator.
\<close>

definition sepJoin :: "string \<Rightarrow> string list \<Rightarrow> string" where
  "sepJoin sep args = Join args sep"

text \<open>
  Modelled from the spec: \<open>rootLike\<close> is not in the source given; the spec calls a
  name root-like when it is "empty, /, or a sentinel root marker".
\<close>

definition rootLike :: "extern \<Rightarrow> string \<Rightarrow> bool" where
  "rootLike x p = (p = ''/'' \<or> p = [] \<or> p = rootSentinel x)"

text \<open>
  Modelled from the spec: \<open>Commands.sort\<close> is not in the source given; the spec has
  it a stable sort by the declared keys, later keys breaking the ties of earlier ones,
  a key without a known order being passed over. \<open>lessByKeys\<close> is the order the keys
  give, \<open>insertStable\<close> puts an entry before the first entry that is greater.
\<close>

fun lessByKeys :: "extern \<Rightarrow> string list \<Rightarrow> File \<Rightarrow> File \<Rightarrow> bool" where
  "lessByKeys x [] a b = False"
| "lessByKeys x (k # ks) a b =
     (case sortOrders x k of
        None \<Rightarrow> lessByKeys x ks a b
      | Some lt \<Rightarrow> (if lt a b then True else if lt b a then False else lessByKeys x ks a b))"

fun insertStable :: "extern \<Rightarrow> string list \<Rightarrow> File \<Rightarrow> File list \<Rightarrow> File list" where
  "insertStable x ks a [] = [a]"
| "insertStable x ks a (b # bs) =
     (if lessByKeys x ks b a then b # insertStable x ks a bs else a # b # bs)"

definition sortFiles :: "extern \<Rightarrow> File list \<Rightarrow> string list \<Rightarrow> File list" where
  "sortFiles x fl ks = foldr (insertStable x ks) fl []"

section \<open>The renderer (list.go, lines 341 to 381)\<close>

text \<open>
  The verbs of \<open>fmt\<close> the renderer uses: \<open>%d\<close> and \<open>%v\<close> of an integer write it in
  decimal; a width with the minus flag pads with spaces on the right, up to the width
  (counted in bytes for a number, in runes for a string), and cuts nothing.
\<close>

fun showNat :: "nat \<Rightarrow> string" where
  "showNat n =
     (if n < 10 then [''0123456789'' ! n]
      else showNat (n div 10) @ [''0123456789'' ! (n mod 10)])"

declare showNat.simps [simp del]

definition showInt :: "int \<Rightarrow> string" where
  "showInt i = (if i < 0 then ''-'' @ showNat (nat (- i)) else showNat (nat i))"

definition padRight :: "nat \<Rightarrow> nat \<Rightarrow> string \<Rightarrow> string" where
  "padRight width n s = s @ replicate (width - n) CHR '' ''"

text \<open>
  \<open>pretty\<close> returns the texts it writes to the logger, one per call of \<open>Logf\<close> or
  \<open>Logln\<close>, in order.
\<close>

definition pretty :: "extern \<Rightarrow> File \<Rightarrow> attribute \<Rightarrow> string list" where
  "pretty x f opt =
     (let fmtdPath = sepJoin ''/'' [parent opt, Name f] in
      if diskUsageOnlyAttr opt then
        [padRight 12 (length (showInt (Size f))) (showInt (Size f)) @ '' '' @ fmtdPath @ [CHR 0x0A]]
      else
        (if minimal opt then [fmtdPath]
         else
           [if IsDir f then ''d'' else ''-'', if Shared f then ''s'' else ''-''] @
           (case UserPermission f of
              None \<Rightarrow> []
            | Some role \<Rightarrow> ['' '' @ padRight 10 (runeCount x role) role @ '' ''])) @
        (if owners (bits x) (attrMask opt) \<and> length (OwnerNames f) \<ge> 1
         then ['' '' @ Join (OwnerNames f) '' & '' @ '' ''] else []) @
        (if version (bits x) (attrMask opt) then ['' v'' @ showInt (Version f)] else []) @
        (if \<not> minimal opt then
           ['' '' @ padRight 10 (runeCount x (prettyBytes x (Size f))) (prettyBytes x (Size f))
            @ [CHR 0x09] @ padRight 10 (runeCount x (FileId f)) (FileId f)
            @ [CHR 0x09, CHR 0x09] @ padRight 20 (runeCount x (ModTime f)) (ModTime f)
            @ [CHR 0x09] @ fmtdPath @ [CHR 0x0A]]
         else [[CHR 0x0A]]))"

section \<open>The traversal (list.go, lines 411 to 539)\<close>

text \<open>Lines 412 to 421: the attribute of this call.\<close>

definition initAttr :: "extern \<Rightarrow> Commands \<Rightarrow> traversalSt \<Rightarrow> attribute" where
  "initAttr x g travSt =
     \<lparr>minimal = isMinimal (bits x) (TypeMask (opts g)),
      attrMask = travMask travSt,
      parent = (if headPath travSt \<noteq> ''/'' then headPath travSt else []),
      diskUsageOnlyAttr = diskUsageOnly (bits x) (TypeMask (opts g))\<rparr>"

text \<open>Lines 429 to 432: the new head path.\<close>

definition newHeadPath :: "extern \<Rightarrow> attribute \<Rightarrow> File \<Rightarrow> attribute" where
  "newHeadPath x opt f =
     (if \<not> (rootLike x (parent opt) \<and> rootLike x (Name f))
      then opt\<lparr>parent := sepJoin ''/'' [parent opt, Name f]\<rparr> else opt)"

text \<open>Lines 438 to 440: a positive depth loses one, a negative one stays.\<close>

definition decrementDepth :: "traversalSt \<Rightarrow> traversalSt" where
  "decrementDepth travSt =
     (if depth travSt > 0 then travSt\<lparr>depth := depth travSt - 1\<rparr> else travSt)"

text \<open>Lines 444 to 447: may this call prompt.\<close>

definition canPromptHere :: "extern \<Rightarrow> Commands \<Rightarrow> traversalSt \<Rightarrow> bool" where
  "canPromptHere x g travSt =
     (let canPrompt = \<not> explicitNoPrompt travSt in
      if canPrompt then optsCanPrompt x (opts g) else canPrompt)"

text \<open>
  Lines 464 to 486: the drain of the page pair. An error ends the call with failure
  after it is logged, a nil file ends it with failure at once (\<open>None\<close>); the close of
  the files channel ends the loop with the files collected.
\<close>

fun drain :: "extern \<Rightarrow> Commands \<Rightarrow> File chanEvent list \<Rightarrow> File list \<Rightarrow> event list
    \<Rightarrow> File list option \<times> event list" where
  "drain x g [] collector tr = (Some collector, tr)"
| "drain x g (ErrRecv None # evs) collector tr = drain x g evs collector tr"
| "drain x g (ErrRecv (Some err) # evs) collector tr = (None, tr @ [LogFetchErr err])"
| "drain x g (FileRecv None # evs) collector tr = (None, tr)"
| "drain x g (FileRecv (Some f) # evs) collector tr =
     drain x g evs
       (if \<not> isHidden x (Name f) (Hidden (opts g)) then collector @ [f] else collector) tr"

text \<open>Lines 488 to 490: the sort, when sort keys are declared.\<close>

definition sortCollector :: "extern \<Rightarrow> traversalSt \<Rightarrow> File list \<Rightarrow> File list" where
  "sortCollector x travSt collector =
     (if length (sortKeys travSt) \<ge> 1 then sortFiles x collector (sortKeys travSt)
      else collector)"

text \<open>
  Lines 492 to 507: the loop over the collector; \<open>iterCount\<close> is a \<open>uint64\<close>.
\<close>

fun renderLoop :: "bool \<Rightarrow> attribute \<Rightarrow> File list \<Rightarrow> File list \<times> 64 word \<times> event list
    \<Rightarrow> File list \<times> 64 word \<times> event list" where
  "renderLoop onlyFiles opt [] st = st"
| "renderLoop onlyFiles opt (f # rest) (children, iterCount, tr) =
     (let children = (if IsDir f then children @ [f] else children) in
      if onlyFiles \<and> IsDir f then renderLoop onlyFiles opt rest (children, iterCount, tr)
      else renderLoop onlyFiles opt rest (children, iterCount + 1, tr @ [Pretty f opt]))"

text \<open>Lines 520 to 529: the state of the call for a child.\<close>

definition childSt :: "Commands \<Rightarrow> traversalSt \<Rightarrow> attribute \<Rightarrow> File \<Rightarrow> traversalSt" where
  "childSt g travSt opt f =
     \<lparr>travFile = f, headPath = parent opt, depth = depth travSt,
      travMask = TypeMask (opts g), inTrash = inTrash travSt,
      explicitNoPrompt = explicitNoPrompt travSt, sortKeys = sortKeys travSt,
      matchQueryOf = matchQueryOf travSt\<rparr>"

text \<open>Lines 519 to 535: the loop over the children, left at the first failure.\<close>

fun forChildren :: "(File \<Rightarrow> event list \<Rightarrow> bool \<times> event list) \<Rightarrow> File list \<Rightarrow> event list
    \<Rightarrow> bool \<times> event list" where
  "forChildren visit [] tr = (True, tr)"
| "forChildren visit (f # rest) tr =
     (case visit f tr of
        (ok, tr') \<Rightarrow> if \<not> ok then (False, tr') else forChildren visit rest tr')"

lemma forChildren_cong [fundef_cong]:
  "cs = cs' \<Longrightarrow> tr = tr' \<Longrightarrow> (\<And>c t. c \<in> set cs' \<Longrightarrow> visit c t = visit' c t)
   \<Longrightarrow> forChildren visit cs tr = forChildren visit' cs' tr'"
proof (induction cs' arbitrary: cs tr tr')
  case Nil
  then show ?case by simp
next
  case (Cons c cs')
  then show ?case by (auto split: prod.splits)
qed

definition promptsAsked :: "event list \<Rightarrow> nat" where
  "promptsAsked tr = length (filter (\<lambda>e. case e of Prompt b \<Rightarrow> True | _ \<Rightarrow> False) tr)"

lemma size_listing: "FileRecv (Some c) \<in> set (listing f) \<Longrightarrow> size c < size f"
proof (cases f)
  case (File i n d s z m v os p l)
  have "FileRecv (Some c) \<in> set l \<Longrightarrow> size c < Suc (size_list (size_chanEvent size) l)" for l
    by (induction l) auto
  with File show "FileRecv (Some c) \<in> set (listing f) \<Longrightarrow> size c < size f" by simp
qed

lemma drain_files:
  "drain x g evs acc tr = (Some collector, tr') \<Longrightarrow>
   set collector \<subseteq> set acc \<union> {c. FileRecv (Some c) \<in> set evs}"
  by (induction x g evs acc tr rule: drain.induct) (auto split: if_splits)

lemma set_insertStable: "set (insertStable x ks a bs) = insert a (set bs)"
  by (induction bs) auto

lemma set_sortFiles: "set (sortFiles x fl ks) = set fl"
  by (induction fl) (auto simp: sortFiles_def set_insertStable)

lemma set_sortCollector: "set (sortCollector x travSt collector) = set collector"
  by (simp add: sortCollector_def set_sortFiles)

lemma renderLoop_eq:
  "renderLoop onlyFiles opt fs (children, n, tr) =
     (children @ filter IsDir fs,
      n + of_nat (length (filter (\<lambda>f. \<not> (onlyFiles \<and> IsDir f)) fs)),
      tr @ map (\<lambda>f. Pretty f opt) (filter (\<lambda>f. \<not> (onlyFiles \<and> IsDir f)) fs))"
  by (induction fs arbitrary: children n tr) (auto simp: Let_def)

lemma child_smaller:
  assumes "drain x g (listing f) [] tr = (Some collector, tr')"
    and "c \<in> set (sortCollector x travSt collector)"
  shows "size c < size f"
proof -
  from assms(2) have "c \<in> set collector" by (simp add: set_sortCollector)
  with drain_files [OF assms(1)] have "FileRecv (Some c) \<in> set (listing f)" by auto
  then show ?thesis by (rule size_listing)
qed

function breadthFirst :: "extern \<Rightarrow> Commands \<Rightarrow> traversalSt \<Rightarrow> event list \<Rightarrow> bool \<times> event list" where
  "breadthFirst x g travSt tr =
     (let opt = initAttr x g travSt; f = travFile travSt in
      if \<not> IsDir f then (True, tr @ [Pretty f opt])
      else
        let opt = newHeadPath x opt f in
        if depth travSt = 0 then (True, tr)
        else
          let travSt = decrementDepth travSt;
              canPrompt = canPromptHere x g travSt;
              onlyFiles = nonFolderExplicitly x (TypeMask (opts g))
          in
            case drain x g (listing f) [] (tr @ [SpinPause, SpinPlay, Paginate f]) of
              (None, tr) \<Rightarrow> (False, tr)
            | (Some collector, tr) \<Rightarrow>
                (case renderLoop onlyFiles opt (sortCollector x travSt collector) ([], 0, tr) of
                   (children, iterCount, tr) \<Rightarrow>
                     if \<not> inTrash travSt \<and> \<not> InTrashOpt (opts g) then
                       (let canPage = depth travSt \<noteq> 0 \<and> length children > 0 in
                        if canPage \<and> canPrompt then
                          (let answer = nextPage x (promptsAsked tr); tr = tr @ [Prompt answer] in
                           if \<not> answer then (False, tr)
                           else forChildren (\<lambda>c. breadthFirst x g (childSt g travSt opt c)) children tr)
                        else forChildren (\<lambda>c. breadthFirst x g (childSt g travSt opt c)) children tr)
                     else (iterCount \<ge> 1, tr)))"
  by pat_completeness auto
termination
proof (relation "measure (\<lambda>(x, g, travSt, tr). size (travFile travSt))", goal_cases)
  case 1
  show ?case by simp
next
  case 2
  then show ?case
    by (auto simp: renderLoop_eq childSt_def dest: child_smaller [OF sym])
next
  case 3
  then show ?case
    by (auto simp: renderLoop_eq childSt_def dest: child_smaller [OF sym])
qed

declare breadthFirst.simps [simp del]

section \<open>The match query (list.go, lines 129 to 189)\<close>

text \<open>
  Each key of \<open>Meta\<close> that is present appends one pair to its group. The parameter
  \<open>exactMatch\<close> is the one the source declares.
\<close>

definition newMatchQuery :: "Commands \<Rightarrow> fuzzyStringsValuePair list \<Rightarrow> fuzzyStringsValuePair list
    \<Rightarrow> fuzzyStringsValuePair list \<Rightarrow> matchQuery" where
  "newMatchQuery g mimes titles ownerPairs =
     \<lparr>dirPath = Path (opts g), inTrashQuery = InTrashOpt (opts g),
      mimeQuerySearches = mimes, titleSearches = titles, ownerSearches = ownerPairs\<rparr>"

definition createMatchQuery :: "extern \<Rightarrow> Commands \<Rightarrow> bool \<Rightarrow> matchQuery" where
  "createMatchQuery x g exactMatch =
     (let mimeQuerySearches = [];
          titleSearches = [];
          ownerSearches = []
      in
        case Meta (opts g) of
          None \<Rightarrow> newMatchQuery g mimeQuerySearches titleSearches ownerSearches
        | Some meta \<Rightarrow>
            (let mimeQuerySearches =
                   (case meta (SkipMimeKeyKey (keys x)) of
                      None \<Rightarrow> mimeQuerySearches
                    | Some skipMimes \<Rightarrow> mimeQuerySearches @
                        [\<lparr>fuzzyLevel = NotLevel, vals = skipMimes,
                          inTrashPair = InTrashOpt (opts g), joiner = And\<rparr>]);
                 mimeQuerySearches =
                   (case meta (MatchMimeKeyKey (keys x)) of
                      None \<Rightarrow> mimeQuerySearches
                    | Some matchMimes \<Rightarrow> mimeQuerySearches @
                        [\<lparr>fuzzyLevel = Is, vals = matchMimes,
                          inTrashPair = InTrashOpt (opts g), joiner = Or\<rparr>]);
                 titleSearches =
                   (case meta (ExactTitleKey (keys x)) of
                      None \<Rightarrow> titleSearches
                    | Some exactTitles \<Rightarrow> titleSearches @
                        [\<lparr>fuzzyLevel = Is, vals = exactTitles,
                          inTrashPair = InTrashOpt (opts g), joiner = Or\<rparr>]);
                 ownerSearches =
                   (case meta (ExactOwnerKey (keys x)) of
                      None \<Rightarrow> ownerSearches
                    | Some exactOwners \<Rightarrow> ownerSearches @
                        [\<lparr>fuzzyLevel = Is, vals = exactOwners,
                          inTrashPair = False, joiner = Or\<rparr>]);
                 ownerSearches =
                   (case meta (MatchOwnerKey (keys x)) of
                      None \<Rightarrow> ownerSearches
                    | Some matchOwners \<Rightarrow> ownerSearches @
                        [\<lparr>fuzzyLevel = Like, vals = matchOwners,
                          inTrashPair = False, joiner = Or\<rparr>]);
                 ownerSearches =
                   (case meta (NotOwnerKey (keys x)) of
                      None \<Rightarrow> ownerSearches
                    | Some notOwner \<Rightarrow> ownerSearches @
                        [\<lparr>fuzzyLevel = NotIn, vals = notOwner,
                          inTrashPair = False, joiner = And\<rparr>])
             in newMatchQuery g mimeQuerySearches titleSearches ownerSearches))"

section \<open>List (list.go, lines 191 to 257)\<close>

text \<open>
  A \<open>keyValue\<close> of \<open>kvList\<close>: the parent path and the file found (a pointer, so
  \<open>None\<close> is nil).
\<close>

type_synonym keyValue = "string \<times> File option"

text \<open>Line 204: \<open>rErr != nil && rErr != ErrPathNotExists\<close>, with the error it holds for.\<close>

definition otherError :: "error option \<Rightarrow> error option" where
  "otherError rErr =
     (case rErr of
        None \<Rightarrow> None
      | Some err \<Rightarrow> if err \<noteq> ErrPathNotExists then Some err else None)"

text \<open>Lines 213 to 230: the pair appended for a source that was found.\<close>

definition rootPair :: "extern \<Rightarrow> Commands \<Rightarrow> bool \<Rightarrow> string \<Rightarrow> File \<Rightarrow> keyValue" where
  "rootPair x g byId relPath r =
     (let parentPath = (if \<not> byId then parentPather g relPath else FileId r);
          parentPath = (if remoteRootLike x parentPath then [] else parentPath);
          r = (if remoteRootLike x (Name r) then setName r [] else r);
          parentPath = (if rootLike x parentPath then [] else parentPath)
      in (parentPath, Some r))"

text \<open>
  Lines 201 to 231: the loop over the sources. It returns the wrapped error, or the
  list of key-value pairs.
\<close>

fun resolveSources :: "extern \<Rightarrow> Commands \<Rightarrow> bool \<Rightarrow> nat \<Rightarrow> string list \<Rightarrow> keyValue list
    \<Rightarrow> event list \<Rightarrow> (error + keyValue list) \<times> event list" where
  "resolveSources x g byId i [] kvList tr = (Inr kvList, tr)"
| "resolveSources x g byId i (relPath # rest) kvList tr =
     (case (if byId then FindById g else FindByPath g) relPath of
        (r, rErr) \<Rightarrow>
          (let tr = tr @ [DebugList i relPath] in
           case otherError rErr of
             Some err \<Rightarrow> (Inl (illogicalStateErr x (Errorf err relPath)), tr)
           | None \<Rightarrow>
             (case r of
                None \<Rightarrow>
                  resolveSources x g byId (Suc i) rest kvList
                    (tr @ [LogNotFound (customQuote x relPath)])
              | Some r \<Rightarrow>
                  resolveSources x g byId (Suc i) rest (kvList @ [rootPair x g byId relPath r]) tr)))"

text \<open>Lines 235 to 253: the traversal of the pairs, left at the first failure.\<close>

fun traverseAll :: "extern \<Rightarrow> Commands \<Rightarrow> (string \<Rightarrow> File \<Rightarrow> traversalSt) \<Rightarrow> keyValue list
    \<Rightarrow> event list \<Rightarrow> event list" where
  "traverseAll x g mk [] tr = tr"
| "traverseAll x g mk ((k, None) # rest) tr = traverseAll x g mk rest tr"
| "traverseAll x g mk ((k, Some f) # rest) tr =
     (case breadthFirst x g (mk k f) tr of
        (ok, tr') \<Rightarrow> if \<not> ok then tr' else traverseAll x g mk rest tr')"

definition listSt :: "extern \<Rightarrow> Commands \<Rightarrow> matchQuery \<Rightarrow> string \<Rightarrow> File \<Rightarrow> traversalSt" where
  "listSt x g mq k f =
     \<lparr>travFile = f, headPath = k, depth = Depth (opts g), travMask = TypeMask (opts g),
      inTrash = InTrashOpt (opts g), explicitNoPrompt = False,
      sortKeys = sorters (keys x) (Some (opts g)), matchQueryOf = Some mq\<rparr>"

definition List :: "extern \<Rightarrow> Commands \<Rightarrow> bool \<Rightarrow> event list \<Rightarrow> error option \<times> event list" where
  "List x g byId tr =
     (let mq = createMatchQuery x g True in
      case resolveSources x g byId 0 (Sources (opts g)) [] tr of
        (Inl err, tr) \<Rightarrow> (Some err, tr)
      | (Inr kvList, tr) \<Rightarrow>
          (None, traverseAll x g (listSt x g mq) kvList (tr @ [SpinPlay]) @ [SpinStop]))"

section \<open>ListMatches (list.go, lines 68 to 127)\<close>

definition matchSt :: "extern \<Rightarrow> Commands \<Rightarrow> File \<Rightarrow> traversalSt" where
  "matchSt x g f =
     \<lparr>travFile = f, headPath = Path (opts g), depth = Depth (opts g),
      travMask = TypeMask (opts g), inTrash = InTrashOpt (opts g), explicitNoPrompt = False,
      sortKeys = sorters (keys x) (Some (opts g)), matchQueryOf = None\<rparr>"

text \<open>
  Lines 90 to 120: the drain of the matches. An error is returned; a nil match is
  passed over; the \<open>break\<close> after a failed traversal leaves the \<open>select\<close> only, so the
  loop goes on with the next match.
\<close>

fun matchLoop :: "extern \<Rightarrow> Commands \<Rightarrow> File chanEvent list \<Rightarrow> int \<Rightarrow> event list
    \<Rightarrow> error option \<times> int \<times> event list" where
  "matchLoop x g [] traversalCount tr = (None, traversalCount, tr)"
| "matchLoop x g (ErrRecv None # evs) traversalCount tr = matchLoop x g evs traversalCount tr"
| "matchLoop x g (ErrRecv (Some err) # evs) traversalCount tr = (Some err, traversalCount, tr)"
| "matchLoop x g (FileRecv None # evs) traversalCount tr = matchLoop x g evs traversalCount tr"
| "matchLoop x g (FileRecv (Some match) # evs) traversalCount tr =
     (case breadthFirst x g (matchSt x g match) tr of
        (ok, tr') \<Rightarrow> matchLoop x g evs (traversalCount + 1) tr')"

text \<open>Lines 70 to 76: the query of \<open>ListMatches\<close>.\<close>

definition matchesQuery :: "extern \<Rightarrow> Commands \<Rightarrow> matchQuery" where
  "matchesQuery x g =
     (let inTrash = trashed (bits x) (TypeMask (opts g));
          mq = createMatchQuery x g False
      in mq\<lparr>titleSearches := titleSearches mq @
              [\<lparr>fuzzyLevel = Like, vals = Sources (opts g), inTrashPair = inTrash,
                joiner = Or\<rparr>]\<rparr>)"

definition ListMatches :: "extern \<Rightarrow> Commands \<Rightarrow> event list \<Rightarrow> error option \<times> event list" where
  "ListMatches x g tr =
     (case matchLoop x g (FindMatches g (matchesQuery x g)) 0 (tr @ [SpinPlay]) of
        (Some err, traversalCount, tr) \<Rightarrow> (Some err, tr @ [SpinStop])
      | (None, traversalCount, tr) \<Rightarrow>
          (None, (if traversalCount < 1 then tr @ [LogNoMatches] else tr) @ [SpinStop]))"

section \<open>ListShared (list.go, lines 259 to 339)\<close>

text \<open>Lines 266 to 300: the drain of the shared files of one path.\<close>

fun sharedLoop :: "extern \<Rightarrow> Commands \<Rightarrow> string \<Rightarrow> File chanEvent list \<Rightarrow> keyValue list
    \<Rightarrow> event list \<Rightarrow> (keyValue list \<times> error option) \<times> event list" where
  "sharedLoop x g relToRootPath [] kvList tr = ((kvList, None), tr)"
| "sharedLoop x g relToRootPath (ErrRecv None # evs) kvList tr =
     sharedLoop x g relToRootPath evs kvList tr"
| "sharedLoop x g relToRootPath (ErrRecv (Some err) # evs) kvList tr =
     ((kvList, Some err), tr @ [LogSharedErr err relToRootPath])"
| "sharedLoop x g relToRootPath (FileRecv s # evs) kvList tr =
     (let parentPath = parentPather g relToRootPath;
          parentPath = (if remoteRootLike x parentPath then [] else parentPath);
          parentPath = (if rootLike x parentPath then [] else parentPath)
      in case s of
           None \<Rightarrow> sharedLoop x g relToRootPath evs kvList tr
         | Some s \<Rightarrow>
             (let s = (if remoteRootLike x (Name s) then setName s [] else s)
              in sharedLoop x g relToRootPath evs (kvList @ [(parentPath, Some s)]) tr))"

definition listSharedPerPath :: "extern \<Rightarrow> Commands \<Rightarrow> string \<Rightarrow> event list
    \<Rightarrow> (keyValue list \<times> error option) \<times> event list" where
  "listSharedPerPath x g relToRootPath tr =
     sharedLoop x g relToRootPath (FindByPathShared g relToRootPath) [] tr"

fun sharedSources :: "extern \<Rightarrow> Commands \<Rightarrow> string list \<Rightarrow> keyValue list \<Rightarrow> event list
    \<Rightarrow> (error + keyValue list) \<times> event list" where
  "sharedSources x g [] kvList tr = (Inr kvList, tr)"
| "sharedSources x g (relPath # rest) kvList tr =
     (case listSharedPerPath x g relPath tr of
        ((childKvList, Some err), tr') \<Rightarrow> (Inl err, tr')
      | ((childKvList, None), tr') \<Rightarrow> sharedSources x g rest (kvList @ childKvList) tr')"

definition sharedSt :: "Commands \<Rightarrow> string \<Rightarrow> File \<Rightarrow> traversalSt" where
  "sharedSt g k f =
     \<lparr>travFile = f, headPath = k, depth = Depth (opts g), travMask = TypeMask (opts g),
      inTrash = InTrashOpt (opts g), explicitNoPrompt = False, sortKeys = [],
      matchQueryOf = None\<rparr>"

definition ListShared :: "extern \<Rightarrow> Commands \<Rightarrow> event list \<Rightarrow> error option \<times> event list" where
  "ListShared x g tr =
     (case sharedSources x g (Sources (opts g)) [] (tr @ [SpinPlay]) of
        (Inl err, tr) \<Rightarrow> (Some err, tr @ [SpinStop])
      | (Inr kvList, tr) \<Rightarrow>
          (None, traverseAll x g (sharedSt g) kvList tr @ [SpinStop, SpinStop]))"

section \<open>Notions of the statements\<close>

text \<open>
  The definitions below state what the traversal and the entry points do; none of them
  is part of the program.
\<close>

text \<open>
  What the loop over the sources leaves behind when no lookup fails with an error other
  than not-found: the log (a debug line for every source, and a warning for every source
  whose lookup gave no file) and the pairs of the sources that were found.
\<close>

fun sourceLog :: "extern \<Rightarrow> Commands \<Rightarrow> bool \<Rightarrow> nat \<Rightarrow> string list \<Rightarrow> event list" where
  "sourceLog x g byId i [] = []"
| "sourceLog x g byId i (relPath # rest) =
     DebugList i relPath #
     (case fst ((if byId then FindById g else FindByPath g) relPath) of
        None \<Rightarrow> [LogNotFound (customQuote x relPath)]
      | Some r \<Rightarrow> []) @
     sourceLog x g byId (Suc i) rest"

fun foundPairs :: "extern \<Rightarrow> Commands \<Rightarrow> bool \<Rightarrow> string list \<Rightarrow> keyValue list" where
  "foundPairs x g byId [] = []"
| "foundPairs x g byId (relPath # rest) =
     (case fst ((if byId then FindById g else FindByPath g) relPath) of
        None \<Rightarrow> []
      | Some r \<Rightarrow> [rootPair x g byId relPath r]) @
     foundPairs x g byId rest"

definition lookupEvent :: "event \<Rightarrow> bool" where
  "lookupEvent ev = (case ev of DebugList i p \<Rightarrow> True | LogNotFound p \<Rightarrow> True | _ \<Rightarrow> False)"

definition lookupError :: "Commands \<Rightarrow> bool \<Rightarrow> string \<Rightarrow> error option" where
  "lookupError g byId relPath = snd ((if byId then FindById g else FindByPath g) relPath)"

text \<open>
  The attribute the children of a directory are rendered with, the entries of a sorted
  collector that the loop renders, and the trace once the level is rendered.
\<close>

definition levelAttr :: "extern \<Rightarrow> Commands \<Rightarrow> traversalSt \<Rightarrow> attribute" where
  "levelAttr x g travSt = newHeadPath x (initAttr x g travSt) (travFile travSt)"

definition shownEntries :: "bool \<Rightarrow> File list \<Rightarrow> File list" where
  "shownEntries onlyFiles collector = filter (\<lambda>f. \<not> (onlyFiles \<and> IsDir f)) collector"

definition fetchTrace :: "traversalSt \<Rightarrow> event list \<Rightarrow> event list" where
  "fetchTrace travSt tr = tr @ [SpinPause, SpinPlay, Paginate (travFile travSt)]"

definition levelTrace :: "extern \<Rightarrow> Commands \<Rightarrow> traversalSt \<Rightarrow> File list \<Rightarrow> event list
    \<Rightarrow> event list" where
  "levelTrace x g travSt sortedFs tr =
     fetchTrace travSt tr @
     map (\<lambda>f. Pretty f (levelAttr x g travSt))
       (shownEntries (nonFolderExplicitly x (TypeMask (opts g))) sortedFs)"

definition isPretty :: "event \<Rightarrow> bool" where
  "isPretty ev = (case ev of Pretty f opt \<Rightarrow> True | _ \<Rightarrow> False)"

definition isPaginate :: "event \<Rightarrow> bool" where
  "isPaginate ev = (case ev of Paginate f \<Rightarrow> True | _ \<Rightarrow> False)"

definition plainEvent :: "File chanEvent \<Rightarrow> bool" where
  "plainEvent ev =
     (case ev of ErrRecv None \<Rightarrow> True | ErrRecv (Some err) \<Rightarrow> False
      | FileRecv None \<Rightarrow> False | FileRecv (Some f) \<Rightarrow> True)"

text \<open>The state of the call that \<open>breadthFirst\<close> makes for the child \<open>c\<close>.\<close>

definition descendInto :: "extern \<Rightarrow> Commands \<Rightarrow> traversalSt \<Rightarrow> File \<Rightarrow> traversalSt" where
  "descendInto x g travSt c = childSt g (decrementDepth travSt) (levelAttr x g travSt) c"

fun hasDoubleSep :: "string \<Rightarrow> bool" where
  "hasDoubleSep (a # b # cs) = ((a = CHR ''/'' \<and> b = CHR ''/'') \<or> hasDoubleSep (b # cs))"
| "hasDoubleSep cs = False"

definition isPrompt :: "event \<Rightarrow> bool" where
  "isPrompt ev = (case ev of Prompt b \<Rightarrow> True | _ \<Rightarrow> False)"

text \<open>
  \<open>promptedAfter tr2 out\<close>: in the trace \<open>out\<close>, the event that follows the events
  \<open>tr2\<close> is a prompt.
\<close>

definition promptedAfter :: "event list \<Rightarrow> event list \<Rightarrow> bool" where
  "promptedAfter tr2 out =
     (take (length tr2) out = tr2 \<and>
      (case drop (length tr2) out of [] \<Rightarrow> False | ev # rest \<Rightarrow> isPrompt ev))"

definition noPromptFirst :: "event list \<Rightarrow> bool" where
  "noPromptFirst new = (case new of [] \<Rightarrow> True | ev # rest \<Rightarrow> \<not> isPrompt ev)"

text \<open>The directories a level descends into, and the trace when the level is rendered.\<close>

definition levelChildren :: "extern \<Rightarrow> traversalSt \<Rightarrow> File list \<Rightarrow> File list" where
  "levelChildren x travSt collector =
     filter IsDir (sortCollector x (decrementDepth travSt) collector)"

definition renderedTrace :: "extern \<Rightarrow> Commands \<Rightarrow> traversalSt \<Rightarrow> File list \<Rightarrow> event list
    \<Rightarrow> event list" where
  "renderedTrace x g travSt collector tr =
     levelTrace x g travSt (sortCollector x (decrementDepth travSt) collector) tr"

text \<open>
  The file an event renders or requests the page of; the files a listing delivers; the
  files at most \<open>n\<close> levels below a file (the file itself is at level zero, the files of
  its listing at level one); and the number of levels below a file.
\<close>

definition eventFile :: "event \<Rightarrow> File option" where
  "eventFile ev = (case ev of Pretty f opt \<Rightarrow> Some f | Paginate f \<Rightarrow> Some f | _ \<Rightarrow> None)"

definition childFiles :: "File \<Rightarrow> File list" where
  "childFiles f =
     concat (map (\<lambda>ev. case ev of FileRecv (Some c) \<Rightarrow> [c] | _ \<Rightarrow> []) (listing f))"

fun withinDepth :: "nat \<Rightarrow> File \<Rightarrow> File list" where
  "withinDepth 0 f = [f]"
| "withinDepth (Suc n) f = f # concat (map (withinDepth n) (childFiles f))"

lemma set_childFiles: "set (childFiles f) = {c. FileRecv (Some c) \<in> set (listing f)}"
proof -
  have "set (concat (map (\<lambda>ev. case ev of FileRecv (Some c) \<Rightarrow> [c] | _ \<Rightarrow> []) l))
      = {c. FileRecv (Some c) \<in> set l}" for l :: "File chanEvent list"
    by (induction l) (auto split: chanEvent.splits option.splits)
  then show ?thesis by (simp add: childFiles_def)
qed

lemma childFiles_smaller: "c \<in> set (childFiles f) \<Longrightarrow> size c < size f"
  by (simp add: set_childFiles size_listing)

function height :: "File \<Rightarrow> nat" where
  "height f = fold max (map (\<lambda>c. Suc (height c)) (childFiles f)) 0"
  by pat_completeness auto
termination
  by (relation "measure size") (auto dest: childFiles_smaller)

declare height.simps [simp del]

definition visitsWithin :: "nat \<Rightarrow> File \<Rightarrow> event list \<Rightarrow> bool" where
  "visitsWithin n root new =
     list_all (\<lambda>ev. case eventFile ev of None \<Rightarrow> True
                    | Some f \<Rightarrow> f \<in> set (withinDepth n root)) new"

section \<open>Example collaborators and files\<close>

definition exampleKeys :: metaKeys where
  "exampleKeys =
     \<lparr>SortKey = ''sort'', SkipMimeKeyKey = ''skip-mime'', MatchMimeKeyKey = ''match-mime'',
      ExactTitleKey = ''exact-title'', ExactOwnerKey = ''exact-owner'',
      MatchOwnerKey = ''match-owner'', NotOwnerKey = ''exclude-owner''\<rparr>"

definition exampleBits :: maskBits where
  "exampleBits =
     \<lparr>DiskUsageOnly = 1, Minimal = 2, Owners = 4, CurrentVersion = 8, SharedBit = 16,
      InTrash = 32, Starred = 64, TeamDrives = 128\<rparr>"

definition exampleExtern :: extern where
  "exampleExtern =
     \<lparr>keys = exampleKeys, bits = exampleBits, rootSentinel = ''root'',
      remoteRootLike = (\<lambda>p. p = ''My Drive''),
      isHidden = (\<lambda>p ignore. take 1 p = ''.'' \<and> \<not> ignore),
      nonFolderExplicitly = (\<lambda>m. (m AND 256) \<noteq> 0),
      prettyBytes = showInt, customQuote = (\<lambda>s. s), runeCount = length,
      illogicalStateErr = (\<lambda>e. e), optsCanPrompt = (\<lambda>os. True),
      nextPage = (\<lambda>n. False),
      sortOrders = (\<lambda>k. if k = ''size'' then Some (\<lambda>a b. Size a < Size b) else None)\<rparr>"

definition exampleOpts :: Options where
  "exampleOpts =
     \<lparr>Depth = 1, TypeMask = 0, InTrashOpt = False, Hidden = False, Path = ''/'',
      PageSize = 100, Sources = [''a''], Meta = Some [''sort'' \<mapsto> ['' size , name '']]\<rparr>"

definition exampleFile :: File where
  "exampleFile =
     File ''0Bx7'' ''report.csv'' False True 1024 ''2015-03-01'' 7 [''ann'', ''bob'']
       (Some ''owner'') []"

definition exampleCommands :: Commands where
  "exampleCommands =
     \<lparr>opts = exampleOpts\<lparr>Meta := Some [''exact-title'' \<mapsto> [''report.csv'']]\<rparr>,
      FindByPath = (\<lambda>p. (None, Some ErrPathNotExists)),
      FindById = (\<lambda>p. (None, Some ErrPathNotExists)),
      FindMatches = (\<lambda>mq. []),
      FindByPathShared = (\<lambda>p. []),
      parentPather = (\<lambda>p. [])\<rparr>"

definition threeRoots :: Commands where
  "threeRoots =
     exampleCommands
       \<lparr>opts := exampleOpts\<lparr>Sources := [''a'', ''gone'', ''b'']\<rparr>,
        FindByPath := (\<lambda>p. if p = ''gone'' then (None, Some ErrPathNotExists)
                          else (Some (File p p False False 1 [] 1 [] None []), None))\<rparr>"

definition brokenRoots :: Commands where
  "brokenRoots =
     threeRoots
       \<lparr>FindByPath := (\<lambda>p. if p = ''gone'' then (None, Some ErrPathNotExists)
                          else if p = ''b'' then (None, Some (Err ''quota''))
                          else (Some (File p p False False 1 [] 1 [] None []), None))\<rparr>"

definition leafA :: File where
  "leafA = File ''f1'' ''a.txt'' False False 10 ''2015-03-01'' 1 [''ann''] None []"

definition dirEmpty :: File where
  "dirEmpty = File ''d1'' ''sub'' True False 0 ''2015-03-02'' 1 [''ann''] None []"

definition rootDir :: File where
  "rootDir =
     File ''r0'' ''docs'' True False 0 ''2015-03-03'' 1 [''ann''] None
       [FileRecv (Some leafA), ErrRecv None, FileRecv (Some dirEmpty)]"

definition rootSt :: traversalSt where
  "rootSt =
     \<lparr>travFile = rootDir, headPath = [], depth = 2, travMask = 0, inTrash = False,
      explicitNoPrompt = False, sortKeys = [], matchQueryOf = None\<rparr>"

definition plainCommands :: Commands where
  "plainCommands = exampleCommands\<lparr>opts := exampleOpts\<lparr>Meta := None\<rparr>\<rparr>"

definition nilDir :: File where
  "nilDir =
     File ''r1'' ''broken'' True False 0 ''2015-03-03'' 1 [''ann''] None
       [FileRecv (Some leafA), FileRecv None, FileRecv (Some dirEmpty)]"

definition driveRoot :: File where
  "driveRoot = File ''root'' [] True False 0 [] 1 [] None []"

definition quietExtern :: extern where
  "quietExtern = exampleExtern\<lparr>optsCanPrompt := (\<lambda>os. False)\<rparr>"

definition deepLeaf :: File where
  "deepLeaf = File ''f2'' ''deep.txt'' False False 5 ''2015-03-04'' 1 [''ann''] None []"

definition subDir :: File where
  "subDir =
     File ''d2'' ''sub'' True False 0 ''2015-03-04'' 1 [''ann''] None [FileRecv (Some deepLeaf)]"

definition topDir :: File where
  "topDir =
     File ''r2'' ''top'' True False 0 ''2015-03-04'' 1 [''ann''] None
       [FileRecv (Some leafA), FileRecv (Some subDir)]"

definition topSt :: "int \<Rightarrow> traversalSt" where
  "topSt d =
     \<lparr>travFile = topDir, headPath = [], depth = d, travMask = 0, inTrash = False,
      explicitNoPrompt = True, sortKeys = [], matchQueryOf = None\<rparr>"

section \<open>The sort keys\<close>

lemma appendTrimmed_eq: "appendTrimmed acc xs = acc @ map TrimSpace xs"
  by (induction xs arbitrary: acc) simp_all

lemma appendSplit_eq:
  "appendSplit acc retr = acc @ concat (map (\<lambda>attr. map TrimSpace (Split attr CHR '','')) retr)"
  by (induction retr arbitrary: acc) (simp_all add: appendTrimmed_eq)

lemma dropLeading_None_iff:
  "dropLeading es s = None \<longleftrightarrow> (\<forall>e\<in>set es. e \<noteq> [] \<longrightarrow> take (length e) s \<noteq> e)"
  by (induction es s rule: dropLeading.induct) auto

lemma trimLeading_none: "dropLeading es (trimLeading es s) = None"
proof (induction es s rule: trimLeading.induct)
  case (1 es s)
  show ?case
  proof (cases "dropLeading es s")
    case None
    then show ?thesis by (simp add: trimLeading.simps [of es s])
  next
    case (Some t)
    with 1 show ?thesis by (simp add: trimLeading.simps [of es s])
  qed
qed

lemma dropLeading_is_drop: "dropLeading es s = Some t \<Longrightarrow> \<exists>n. t = drop n s"
  by (induction es s rule: dropLeading.induct) (auto split: if_splits)

lemma trimLeading_is_drop: "\<exists>n. trimLeading es s = drop n s"
proof (induction es s rule: trimLeading.induct)
  case (1 es s)
  show ?case
  proof (cases "dropLeading es s")
    case None
    then have "trimLeading es s = drop 0 s" by (simp add: trimLeading.simps [of es s])
    then show ?thesis by blast
  next
    case (Some t)
    then obtain n where t: "t = drop n s" using dropLeading_is_drop by blast
    from 1 Some obtain m where "trimLeading es t = drop m t" by blast
    with Some t have "trimLeading es s = drop (m + n) s"
      by (simp add: trimLeading.simps [of es s])
    then show ?thesis by blast
  qed
qed

lemma dropLeading_take:
  assumes "dropLeading es s = None"
  shows "dropLeading es (take n s) = None"
proof -
  have "take (length e) (take n s) \<noteq> e" if e: "e \<in> set es" "e \<noteq> []" for e
  proof
    assume eq: "take (length e) (take n s) = e"
    from arg_cong [OF this, of length] have "length e \<le> n" by simp
    with eq have "take (length e) s = e" by (simp add: min.absorb1)
    with assms e show False by (auto simp: dropLeading_None_iff)
  qed
  then show ?thesis by (auto simp: dropLeading_None_iff)
qed

lemma spaceRunes_nonempty: "[] \<notin> set spaceRunes"
  by (simp add: spaceRunes_def)

lemma TrimSpace_trimmed: "\<not> startsWithSpace (TrimSpace s) \<and> \<not> endsWithSpace (TrimSpace s)"
proof -
  define a where "a = trimLeading spaceRunes s"
  define b where "b = trimLeading (map rev spaceRunes) (rev a)"
  have r: "TrimSpace s = rev b" by (simp add: TrimSpace_def a_def b_def)
  have a: "dropLeading spaceRunes a = None" by (simp add: a_def trimLeading_none)
  have b: "dropLeading (map rev spaceRunes) b = None" by (simp add: b_def trimLeading_none)
  obtain n where "b = drop n (rev a)" using trimLeading_is_drop b_def by blast
  then have "rev b = take (length a - n) a" by (simp add: rev_drop)
  with a have "dropLeading spaceRunes (rev b) = None" by (simp add: dropLeading_take)
  then have 1: "\<not> startsWithSpace (rev b)"
    using spaceRunes_nonempty by (auto simp: startsWithSpace_def list_ex_iff dropLeading_None_iff)
  have 2: "\<not> endsWithSpace (rev b)"
    using b spaceRunes_nonempty
    by (auto simp: endsWithSpace_def list_ex_iff dropLeading_None_iff)
  from 1 2 r show ?thesis by simp
qed

lemma TrimSpace_within: "\<exists>a b. s = a @ TrimSpace s @ b"
proof -
  define t where "t = trimLeading spaceRunes s"
  define u where "u = trimLeading (map rev spaceRunes) (rev t)"
  obtain n where n: "t = drop n s" using trimLeading_is_drop t_def by blast
  obtain m where m: "u = drop m (rev t)" using trimLeading_is_drop u_def by blast
  have "TrimSpace s = rev u" by (simp add: TrimSpace_def t_def u_def)
  with m have "TrimSpace s = take (length t - m) t" by (simp add: rev_drop)
  then have "t = TrimSpace s @ drop (length t - m) t" by simp
  with n have "s = take n s @ TrimSpace s @ drop (length t - m) t"
    by (metis append_take_drop_id)
  then show ?thesis by blast
qed

lemma splitByte_nonempty: "splitByte c piece s \<noteq> []"
  by (induction c piece s rule: splitByte.induct) auto

lemma Join_Cons: "ys \<noteq> [] \<Longrightarrow> Join (y # ys) sep = y @ sep @ Join ys sep"
  by (cases ys) simp_all

lemma splitByte_Join: "Join (splitByte c piece s) [c] = piece @ s"
  by (induction c piece s rule: splitByte.induct) (simp_all add: Join_Cons splitByte_nonempty)

lemma splitByte_free: "c \<notin> set piece \<Longrightarrow> p \<in> set (splitByte c piece s) \<Longrightarrow> c \<notin> set p"
  by (induction c piece s rule: splitByte.induct) (auto split: if_splits)

text \<open>
  C6. Sort-key extraction is a function of the options alone. Without options, without
  a \<open>Meta\<close> map, without the sort key in the map, or with an empty list of values the
  result is the empty list, and with no sort keys the collected siblings are passed on
  in the order they came. Otherwise every value is split at its commas (the fragments
  hold no comma and, joined by commas, give the value back), every fragment is trimmed
  (the result is a part of the fragment that neither starts nor ends with white space),
  and the trimmed fragments of all values, in order, are the sort keys.
\<close>

theorem sorters_split_trimmed:
  "sorters k os =
     (case os of
        None \<Rightarrow> []
      | Some ov \<Rightarrow>
          (case Meta ov of
             None \<Rightarrow> []
           | Some meta \<Rightarrow>
               (case meta (SortKey k) of
                  None \<Rightarrow> []
                | Some retr \<Rightarrow> concat (map (\<lambda>attr. map TrimSpace (Split attr CHR '','')) retr))))
   \<and> (\<forall>ov meta. os = Some ov \<and> Meta ov = Some meta \<and> meta (SortKey k) = Some []
        \<longrightarrow> sorters k os = [])
   \<and> (sortKeys travSt = sorters k os \<and> sorters k os = []
        \<longrightarrow> sortCollector x travSt collector = collector)
   \<and> (\<forall>attr. Join (Split attr CHR '','') '','' = attr
        \<and> (\<forall>p \<in> set (Split attr CHR '',''). CHR '','' \<notin> set p))
   \<and> (\<forall>s. (\<exists>a b. s = a @ TrimSpace s @ b)
        \<and> \<not> startsWithSpace (TrimSpace s) \<and> \<not> endsWithSpace (TrimSpace s))
   \<and> (\<forall>key \<in> set (sorters k os). \<not> startsWithSpace key \<and> \<not> endsWithSpace key)"
proof -
  have 1: "sorters k os =
     (case os of
        None \<Rightarrow> []
      | Some ov \<Rightarrow>
          (case Meta ov of
             None \<Rightarrow> []
           | Some meta \<Rightarrow>
               (case meta (SortKey k) of
                  None \<Rightarrow> []
                | Some retr \<Rightarrow> concat (map (\<lambda>attr. map TrimSpace (Split attr CHR '','')) retr))))"
    by (simp add: sorters_def appendSplit_eq split: option.splits)
  have 2: "\<forall>ov meta. os = Some ov \<and> Meta ov = Some meta \<and> meta (SortKey k) = Some []
        \<longrightarrow> sorters k os = []"
    by (simp add: sorters_def)
  have 3: "sortKeys travSt = sorters k os \<and> sorters k os = []
        \<longrightarrow> sortCollector x travSt collector = collector"
    by (simp add: sortCollector_def)
  have 4: "\<forall>attr. Join (Split attr CHR '','') '','' = attr
        \<and> (\<forall>p \<in> set (Split attr CHR '',''). CHR '','' \<notin> set p)"
    using splitByte_Join [of "CHR '',''" "[]"] splitByte_free [of "CHR '',''" "[]"]
    by (auto simp: Split_def)
  have 5: "\<forall>s. (\<exists>a b. s = a @ TrimSpace s @ b)
        \<and> \<not> startsWithSpace (TrimSpace s) \<and> \<not> endsWithSpace (TrimSpace s)"
    using TrimSpace_within TrimSpace_trimmed by blast
  have 6: "\<forall>key \<in> set (sorters k os). \<not> startsWithSpace key \<and> \<not> endsWithSpace key"
    unfolding 1 using TrimSpace_trimmed by (auto split: option.splits)
  from 1 2 3 4 5 6 show ?thesis by blast
qed

lemma example_sorters_value:
  "concat (map (\<lambda>attr. map TrimSpace (Split attr CHR '','')) ['' size , name '']) = [''size'', ''name'']"
  by code_simp

theorem sorters_split_trimmed_witness:
  "sorters exampleKeys (Some exampleOpts) = [''size'', ''name'']
   \<and> \<not> startsWithSpace ''size'' \<and> \<not> endsWithSpace ''name''
   \<and> sorters exampleKeys (Some (exampleOpts\<lparr>Meta := None\<rparr>)) = []
   \<and> sortCollector exampleExtern
        \<lparr>travFile = File ''id'' ''a'' False False 1 '''' 1 [] None [], headPath = [], depth = 1,
         travMask = 0, inTrash = False, explicitNoPrompt = False, sortKeys = [],
         matchQueryOf = None\<rparr> [] = []"
proof -
  have a: "sorters exampleKeys (Some exampleOpts) = [''size'', ''name'']"
    using sorters_split_trimmed [of exampleKeys "Some exampleOpts"] example_sorters_value
    by (simp add: exampleKeys_def exampleOpts_def)
  have b: "\<not> startsWithSpace ''size'' \<and> \<not> endsWithSpace ''name''"
    using sorters_split_trimmed [of exampleKeys "Some exampleOpts"] a by simp
  have c: "sorters exampleKeys (Some (exampleOpts\<lparr>Meta := None\<rparr>)) = []"
    using sorters_split_trimmed [of exampleKeys "Some (exampleOpts\<lparr>Meta := None\<rparr>)"]
    by simp
  have d: "sortCollector exampleExtern
        \<lparr>travFile = File ''id'' ''a'' False False 1 '''' 1 [] None [], headPath = [], depth = 1,
         travMask = 0, inTrash = False, explicitNoPrompt = False, sortKeys = [],
         matchQueryOf = None\<rparr> [] = []"
    using sorters_split_trimmed [of exampleKeys "Some (exampleOpts\<lparr>Meta := None\<rparr>)"
        "\<lparr>travFile = File ''id'' ''a'' False False 1 '''' 1 [] None [], headPath = [], depth = 1,
         travMask = 0, inTrash = False, explicitNoPrompt = False, sortKeys = [],
         matchQueryOf = None\<rparr>" exampleExtern "[]"] c
    by simp
  from a b c d show ?thesis by simp
qed

section \<open>The renderer in disk-usage-only mode\<close>

lemma showInt_1024: "showInt 1024 = ''1024''"
  by code_simp

lemma eight_spaces: "replicate 8 CHR '' '' = ''        ''"
  by code_simp

text \<open>
  C9. In disk-usage-only mode the renderer writes one text: the size in decimal, padded
  with spaces on the right to twelve bytes, a space, the path, and a line feed. The text
  is the same for any two files of the same size and name under attributes of the same
  parent, whatever their directory and shared flags, role, owners, version, id and
  modification time, and whatever the mask and the minimal flag of the attribute.
\<close>

theorem pretty_diskUsageOnly:
  assumes "diskUsageOnlyAttr opt"
  shows "pretty x f opt =
      [showInt (Size f) @ replicate (12 - length (showInt (Size f))) CHR '' '' @ '' ''
        @ parent opt @ ''/'' @ Name f @ [CHR 0x0A]]
    \<and> (\<forall>x' f' opt'. diskUsageOnlyAttr opt' \<and> parent opt' = parent opt
          \<and> Size f' = Size f \<and> Name f' = Name f
        \<longrightarrow> pretty x' f' opt' = pretty x f opt)"
  using assms by (simp add: pretty_def padRight_def sepJoin_def)

theorem pretty_diskUsageOnly_witness:
  "pretty exampleExtern exampleFile
     \<lparr>minimal = True, attrMask = 14, parent = ''docs'', diskUsageOnlyAttr = True\<rparr>
   = [''1024         docs/report.csv'' @ [CHR 0x0A]]
   \<and> pretty exampleExtern (File [] ''report.csv'' True False 1024 [] 0 [] None [])
     \<lparr>minimal = False, attrMask = 0, parent = ''docs'', diskUsageOnlyAttr = True\<rparr>
   = pretty exampleExtern exampleFile
     \<lparr>minimal = True, attrMask = 14, parent = ''docs'', diskUsageOnlyAttr = True\<rparr>"
proof -
  have h: "diskUsageOnlyAttr
      \<lparr>minimal = True, attrMask = 14, parent = ''docs'', diskUsageOnlyAttr = True\<rparr>"
    by simp
  show ?thesis
    using pretty_diskUsageOnly [OF h, of exampleExtern exampleFile] showInt_1024 eight_spaces
    by (simp add: exampleFile_def)
qed

section \<open>The match query and the flag exactMatch\<close>

lemma createMatchQuery_titles:
  "titleSearches (createMatchQuery x g exactMatch) =
     (case Meta (opts g) of
        None \<Rightarrow> []
      | Some meta \<Rightarrow>
          (case meta (ExactTitleKey (keys x)) of
             None \<Rightarrow> []
           | Some exactTitles \<Rightarrow>
               [\<lparr>fuzzyLevel = Is, vals = exactTitles, inTrashPair = InTrashOpt (opts g),
                 joiner = Or\<rparr>]))"
  by (simp add: createMatchQuery_def newMatchQuery_def Let_def split: option.splits)

text \<open>
  C2, as the claim has it, fails: called with \<open>exactMatch\<close> false on options that hold
  an exact-title key, the builder produces a title clause that matches exactly.
\<close>

theorem createMatchQuery_exactMatch_counterexample:
  "titleSearches (createMatchQuery exampleExtern exampleCommands False) =
     [\<lparr>fuzzyLevel = Is, vals = [''report.csv''], inTrashPair = False, joiner = Or\<rparr>]
   \<and> \<not> list_all (\<lambda>p. fuzzyLevel p = Like)
         (titleSearches (createMatchQuery exampleExtern exampleCommands False))"
  by (simp add: createMatchQuery_titles exampleCommands_def exampleOpts_def exampleExtern_def
      exampleKeys_def)

text \<open>
  C2, amended. The flag \<open>exactMatch\<close> has no effect on the query the builder returns.
  The builder produces at most one title clause, from the exact-title key, and that
  clause matches exactly whatever the flag. The fuzzy title clause over the sources is
  appended by \<open>ListMatches\<close> to the query it got from the builder; \<open>List\<close> hands the
  builder's query on as it is.
\<close>

theorem createMatchQuery_ignores_exactMatch:
  "createMatchQuery x g exactMatch = createMatchQuery x g exactMatch'
   \<and> list_all (\<lambda>p. fuzzyLevel p = Is) (titleSearches (createMatchQuery x g exactMatch))
   \<and> titleSearches (matchesQuery x g) =
       titleSearches (createMatchQuery x g False) @
       [\<lparr>fuzzyLevel = Like, vals = Sources (opts g),
         inTrashPair = trashed (bits x) (TypeMask (opts g)), joiner = Or\<rparr>]
   \<and> matchQueryOf (listSt x g (createMatchQuery x g True) k f)
       = Some (createMatchQuery x g True)"
proof -
  have 1: "createMatchQuery x g exactMatch = createMatchQuery x g exactMatch'"
    by (simp add: createMatchQuery_def)
  have 2: "list_all (\<lambda>p. fuzzyLevel p = Is) (titleSearches (createMatchQuery x g exactMatch))"
    by (simp add: createMatchQuery_titles split: option.splits)
  have 3: "titleSearches (matchesQuery x g) =
       titleSearches (createMatchQuery x g False) @
       [\<lparr>fuzzyLevel = Like, vals = Sources (opts g),
         inTrashPair = trashed (bits x) (TypeMask (opts g)), joiner = Or\<rparr>]"
    by (simp add: matchesQuery_def Let_def)
  have 4: "matchQueryOf (listSt x g (createMatchQuery x g True) k f)
       = Some (createMatchQuery x g True)"
    by (simp add: listSt_def)
  from 1 2 3 4 show ?thesis by blast
qed

theorem createMatchQuery_ignores_exactMatch_witness:
  "createMatchQuery exampleExtern exampleCommands True
     = createMatchQuery exampleExtern exampleCommands False
   \<and> map fuzzyLevel (titleSearches (createMatchQuery exampleExtern exampleCommands True)) = [Is]
   \<and> map fuzzyLevel (titleSearches (matchesQuery exampleExtern exampleCommands)) = [Is, Like]"
  using createMatchQuery_ignores_exactMatch [of exampleExtern exampleCommands True False]
  by (simp add: createMatchQuery_titles exampleCommands_def exampleOpts_def exampleExtern_def
      exampleKeys_def)

section \<open>List and the lookup of its sources\<close>

lemma list_all_sourceLog: "list_all lookupEvent (sourceLog x g byId i srcs)"
  by (induction srcs arbitrary: i) (auto simp: lookupEvent_def split: option.splits)

lemma resolveSources_tolerated:
  "list_all (\<lambda>p. otherError (lookupError g byId p) = None) srcs \<Longrightarrow>
   resolveSources x g byId i srcs kvList tr =
     (Inr (kvList @ foundPairs x g byId srcs), tr @ sourceLog x g byId i srcs)"
proof (induction srcs arbitrary: i kvList tr)
  case Nil
  then show ?case by simp
next
  case (Cons p srcs)
  then show ?case
    by (cases "(if byId then FindById g else FindByPath g) p")
       (auto simp: lookupError_def split: option.splits)
qed

lemma resolveSources_fatal:
  "list_all (\<lambda>p. otherError (lookupError g byId p) = None) pre \<Longrightarrow>
   otherError (lookupError g byId p) = Some err \<Longrightarrow>
   resolveSources x g byId i (pre @ p # post) kvList tr =
     (Inl (illogicalStateErr x (Errorf err p)),
      tr @ sourceLog x g byId i pre @ [DebugList (i + length pre) p])"
proof (induction pre arbitrary: i kvList tr)
  case Nil
  then show ?case
    by (cases "(if byId then FindById g else FindByPath g) p") (auto simp: lookupError_def)
next
  case (Cons q pre)
  then show ?case
    by (cases "(if byId then FindById g else FindByPath g) q")
       (auto simp: lookupError_def split: option.splits)
qed

lemma otherError_cases:
  "otherError rErr = (if rErr = None \<or> rErr = Some ErrPathNotExists then None else rErr)"
  by (auto simp: otherError_def split: option.splits)

text \<open>
  C4. A lookup reports not-found when it gives no file and the error
  \<open>ErrPathNotExists\<close>. When every lookup of the sources gives the error nil or
  \<open>ErrPathNotExists\<close>, \<open>List\<close> returns nil (success); the loop over the sources went
  through all of them, logged one warning for each source without a file, in order, and
  the traversal is run on the pairs of all sources that were found. When the lookup of a
  source gives any other error, and no source before it did, \<open>List\<close> returns that
  error, joined with the source and wrapped by \<open>illogicalStateErr\<close>, and all it has done
  is the lookups before: the trace holds debug lines and not-found warnings only, no
  start of the busy indicator, no request for a page and no rendering.
\<close>

theorem List_lookup_errors:
  "(list_all (\<lambda>p. lookupError g byId p = None \<or> lookupError g byId p = Some ErrPathNotExists)
      (Sources (opts g))
    \<longrightarrow> List x g byId tr =
          (None,
           traverseAll x g (listSt x g (createMatchQuery x g True))
             (foundPairs x g byId (Sources (opts g)))
             (tr @ sourceLog x g byId 0 (Sources (opts g)) @ [SpinPlay]) @ [SpinStop])
        \<and> filter (\<lambda>ev. case ev of LogNotFound p \<Rightarrow> True | _ \<Rightarrow> False)
             (sourceLog x g byId 0 (Sources (opts g)))
           = map (\<lambda>p. LogNotFound (customQuote x p))
               (filter (\<lambda>p. fst ((if byId then FindById g else FindByPath g) p) = None)
                  (Sources (opts g))))
   \<and> (Sources (opts g) = pre @ p # post
      \<and> list_all (\<lambda>p. lookupError g byId p = None \<or> lookupError g byId p = Some ErrPathNotExists) pre
      \<and> lookupError g byId p = Some err \<and> err \<noteq> ErrPathNotExists
    \<longrightarrow> List x g byId tr =
          (Some (illogicalStateErr x (Errorf err p)),
           tr @ sourceLog x g byId 0 pre @ [DebugList (length pre) p])
        \<and> list_all lookupEvent (sourceLog x g byId 0 pre @ [DebugList (length pre) p]))"
proof -
  have tol: "list_all (\<lambda>p. otherError (lookupError g byId p) = None) ps"
    if "list_all (\<lambda>p. lookupError g byId p = None \<or> lookupError g byId p = Some ErrPathNotExists) ps"
    for ps
    using that by (induction ps) (auto simp: otherError_cases)
  have warn: "filter (\<lambda>ev. case ev of LogNotFound p \<Rightarrow> True | _ \<Rightarrow> False)
             (sourceLog x g byId i ps)
           = map (\<lambda>p. LogNotFound (customQuote x p))
               (filter (\<lambda>p. fst ((if byId then FindById g else FindByPath g) p) = None) ps)"
    for i ps
    by (induction ps arbitrary: i) (auto split: option.splits)
  have a: "List x g byId tr =
          (None,
           traverseAll x g (listSt x g (createMatchQuery x g True))
             (foundPairs x g byId (Sources (opts g)))
             (tr @ sourceLog x g byId 0 (Sources (opts g)) @ [SpinPlay]) @ [SpinStop])"
    if "list_all (\<lambda>p. lookupError g byId p = None \<or> lookupError g byId p = Some ErrPathNotExists)
      (Sources (opts g))"
    using resolveSources_tolerated [OF tol [OF that], of x 0 "[]" tr]
    by (simp add: List_def)
  have b: "List x g byId tr =
          (Some (illogicalStateErr x (Errorf err p)),
           tr @ sourceLog x g byId 0 pre @ [DebugList (length pre) p])"
    if "Sources (opts g) = pre @ p # post"
      and "list_all (\<lambda>p. lookupError g byId p = None \<or> lookupError g byId p = Some ErrPathNotExists) pre"
      and "lookupError g byId p = Some err" and "err \<noteq> ErrPathNotExists"
  proof -
    from that(3,4) have "otherError (lookupError g byId p) = Some err"
      by (simp add: otherError_cases)
    from resolveSources_fatal [OF tol [OF that(2)] this, of x 0 post "[]" tr] that(1)
    show ?thesis by (simp add: List_def)
  qed
  have c: "list_all lookupEvent (sourceLog x g byId 0 pre @ [DebugList (length pre) p])"
    using list_all_sourceLog [of x g byId 0 pre] by (simp add: lookupEvent_def)
  from a b c warn show ?thesis by blast
qed

theorem List_lookup_errors_witness:
  "fst (List exampleExtern threeRoots False []) = None
   \<and> sourceLog exampleExtern threeRoots False 0 (Sources (opts threeRoots)) =
       [DebugList 0 ''a'', DebugList 1 ''gone'', LogNotFound ''gone'', DebugList 2 ''b'']
   \<and> map fst (foundPairs exampleExtern threeRoots False (Sources (opts threeRoots))) = [[], []]
   \<and> List exampleExtern brokenRoots False [] =
       (Some (Errorf (Err ''quota'') ''b''),
        [DebugList 0 ''a'', DebugList 1 ''gone'', LogNotFound ''gone'', DebugList 2 ''b''])"
proof -
  have a: "fst (List exampleExtern threeRoots False []) = None"
    using List_lookup_errors [where g = threeRoots and byId = False and x = exampleExtern
        and tr = "[]"]
    by (simp add: threeRoots_def exampleCommands_def exampleOpts_def lookupError_def)
  have b: "sourceLog exampleExtern threeRoots False 0 (Sources (opts threeRoots)) =
       [DebugList 0 ''a'', DebugList 1 ''gone'', LogNotFound ''gone'', DebugList 2 ''b'']"
    by (simp add: threeRoots_def exampleCommands_def exampleOpts_def exampleExtern_def)
  have c: "map fst (foundPairs exampleExtern threeRoots False (Sources (opts threeRoots))) = [[], []]"
    by (simp add: threeRoots_def exampleCommands_def exampleOpts_def exampleExtern_def
        rootPair_def rootLike_def)
  have d: "List exampleExtern brokenRoots False [] =
       (Some (Errorf (Err ''quota'') ''b''),
        [DebugList 0 ''a'', DebugList 1 ''gone'', LogNotFound ''gone'', DebugList 2 ''b''])"
    using List_lookup_errors [where g = brokenRoots and byId = False and x = exampleExtern
        and tr = "[]" and pre = "[''a'', ''gone'']" and p = "''b''" and post = "[]"
        and err = "Err ''quota''"]
    by (simp add: brokenRoots_def threeRoots_def exampleCommands_def exampleOpts_def
        exampleExtern_def lookupError_def)
  from a b c d show ?thesis by simp
qed

section \<open>One level of the traversal\<close>

lemma renderLoop_shown:
  "renderLoop onlyFiles opt fs (children, n, tr) =
     (children @ filter IsDir fs, n + of_nat (length (shownEntries onlyFiles fs)),
      tr @ map (\<lambda>f. Pretty f opt) (shownEntries onlyFiles fs))"
  by (simp add: renderLoop_eq shownEntries_def)

lemma drain_Some_trace: "drain x g evs acc tr = (Some collector, tr') \<Longrightarrow> tr' = tr"
  by (induction x g evs acc tr rule: drain.induct) (auto split: if_splits)

lemma breadthFirst_leaf:
  "\<not> IsDir (travFile travSt) \<Longrightarrow>
   breadthFirst x g travSt tr = (True, tr @ [Pretty (travFile travSt) (initAttr x g travSt)])"
  by (subst breadthFirst.simps) (simp add: Let_def)

lemma breadthFirst_depth0:
  "IsDir (travFile travSt) \<Longrightarrow> depth travSt = 0 \<Longrightarrow> breadthFirst x g travSt tr = (True, tr)"
  by (subst breadthFirst.simps) (simp add: Let_def)

lemma breadthFirst_drain_None:
  assumes "IsDir (travFile travSt)" and "depth travSt \<noteq> 0"
    and "drain x g (listing (travFile travSt)) [] (fetchTrace travSt tr) = (None, tr')"
  shows "breadthFirst x g travSt tr = (False, tr')"
  using assms by (subst breadthFirst.simps) (simp add: Let_def fetchTrace_def)

lemma breadthFirst_level:
  assumes "IsDir (travFile travSt)" and "depth travSt \<noteq> 0"
    and "drain x g (listing (travFile travSt)) [] (fetchTrace travSt tr) = (Some collector, tr')"
  shows "breadthFirst x g travSt tr =
     (let st = decrementDepth travSt;
          sortedFs = sortCollector x st collector;
          children = filter IsDir sortedFs;
          tr2 = levelTrace x g travSt sortedFs tr
      in if \<not> inTrash st \<and> \<not> InTrashOpt (opts g) then
           (if (depth st \<noteq> 0 \<and> length children > 0) \<and> canPromptHere x g st then
              (if \<not> nextPage x (promptsAsked tr2) then (False, tr2 @ [Prompt False])
               else forChildren (\<lambda>c. breadthFirst x g (childSt g st (levelAttr x g travSt) c))
                      children (tr2 @ [Prompt True]))
            else forChildren (\<lambda>c. breadthFirst x g (childSt g st (levelAttr x g travSt) c))
                   children tr2)
         else ((1 :: 64 word) \<le> of_nat (length
                 (shownEntries (nonFolderExplicitly x (TypeMask (opts g))) sortedFs)), tr2))"
proof -
  from assms(3) have tr': "tr' = fetchTrace travSt tr" by (rule drain_Some_trace)
  show ?thesis
    using assms tr'
    by (subst breadthFirst.simps)
       (simp add: Let_def fetchTrace_def levelTrace_def levelAttr_def renderLoop_shown)
qed

lemma rootDir_simps [simp]:
  "IsDir rootDir" "listing rootDir = [FileRecv (Some leafA), ErrRecv None, FileRecv (Some dirEmpty)]"
  "Name rootDir = ''docs''" "IsDir dirEmpty" "listing dirEmpty = []" "\<not> IsDir leafA"
  "Name leafA = ''a.txt''" "Name dirEmpty = ''sub''"
  by (simp_all add: rootDir_def dirEmpty_def leafA_def)

section \<open>Partition and render\<close>

text \<open>
  C7, as the claim has it, fails: no mode of the mask keeps a non-directory from being
  rendered. The loop consults one flag, \<open>nonFolderExplicitly\<close> of the mask; with the
  flag set and with the flag clear, the non-directory of the collector is rendered.
\<close>

theorem renderLoop_nonDirectory_counterexample:
  "renderLoop True \<lparr>minimal = False, attrMask = 0, parent = ''docs'', diskUsageOnlyAttr = False\<rparr>
     [leafA] ([], 0, []) =
     ([], 1, [Pretty leafA
        \<lparr>minimal = False, attrMask = 0, parent = ''docs'', diskUsageOnlyAttr = False\<rparr>])
   \<and> renderLoop False \<lparr>minimal = False, attrMask = 0, parent = ''docs'', diskUsageOnlyAttr = False\<rparr>
     [leafA] ([], 0, []) =
     ([], 1, [Pretty leafA
        \<lparr>minimal = False, attrMask = 0, parent = ''docs'', diskUsageOnlyAttr = False\<rparr>])"
  by (simp add: Let_def)

text \<open>
  C7, amended. From the collector (after the sort) the loop renders every non-directory,
  whatever the mask; it renders a directory unless the mask asks for non-folders
  (\<open>nonFolderExplicitly\<close>), in which case the directory is not rendered; and whatever
  the mask, all directories of the collector, in the collector's order, are the children.
  The rendered entries come in the collector's order, and \<open>iterCount\<close> counts them.
  Where the traversal goes on (no trash mode, no prompt), it descends into exactly those
  children, rendered or not.
\<close>

theorem renderLoop_partition:
  "renderLoop onlyFiles opt collector ([], 0, tr) =
     (filter IsDir collector,
      of_nat (length (shownEntries onlyFiles collector)),
      tr @ map (\<lambda>f. Pretty f opt) (shownEntries onlyFiles collector))
   \<and> (\<forall>f \<in> set collector. \<not> IsDir f \<longrightarrow> f \<in> set (shownEntries onlyFiles collector))
   \<and> (\<forall>f \<in> set collector. IsDir f \<longrightarrow>
         (f \<in> set (shownEntries onlyFiles collector) \<longleftrightarrow> \<not> onlyFiles))
   \<and> (IsDir (travFile travSt) \<and> depth travSt \<noteq> 0
       \<and> drain x g (listing (travFile travSt)) [] (fetchTrace travSt tr0) = (Some collector0, tr1)
       \<and> \<not> inTrash travSt \<and> \<not> InTrashOpt (opts g) \<and> explicitNoPrompt travSt
      \<longrightarrow> breadthFirst x g travSt tr0 =
            forChildren
              (\<lambda>c. breadthFirst x g (childSt g (decrementDepth travSt) (levelAttr x g travSt) c))
              (filter IsDir (sortCollector x (decrementDepth travSt) collector0))
              (levelTrace x g travSt (sortCollector x (decrementDepth travSt) collector0) tr0))"
proof -
  have 1: "renderLoop onlyFiles opt collector ([], 0, tr) =
     (filter IsDir collector,
      of_nat (length (shownEntries onlyFiles collector)),
      tr @ map (\<lambda>f. Pretty f opt) (shownEntries onlyFiles collector))"
    by (simp add: renderLoop_shown)
  have 2: "\<forall>f \<in> set collector. \<not> IsDir f \<longrightarrow> f \<in> set (shownEntries onlyFiles collector)"
    by (simp add: shownEntries_def)
  have 3: "\<forall>f \<in> set collector. IsDir f \<longrightarrow>
         (f \<in> set (shownEntries onlyFiles collector) \<longleftrightarrow> \<not> onlyFiles)"
    by (simp add: shownEntries_def)
  have 4: "breadthFirst x g travSt tr0 =
            forChildren
              (\<lambda>c. breadthFirst x g (childSt g (decrementDepth travSt) (levelAttr x g travSt) c))
              (filter IsDir (sortCollector x (decrementDepth travSt) collector0))
              (levelTrace x g travSt (sortCollector x (decrementDepth travSt) collector0) tr0)"
    if "IsDir (travFile travSt)" "depth travSt \<noteq> 0"
      "drain x g (listing (travFile travSt)) [] (fetchTrace travSt tr0) = (Some collector0, tr1)"
      "\<not> inTrash travSt" "\<not> InTrashOpt (opts g)" "explicitNoPrompt travSt"
    using that(4-6) breadthFirst_level [OF that(1-3)]
    by (simp add: Let_def decrementDepth_def canPromptHere_def)
  from 1 2 3 4 show ?thesis by blast
qed

theorem renderLoop_partition_witness:
  "renderLoop True \<lparr>minimal = False, attrMask = 0, parent = ''docs'', diskUsageOnlyAttr = False\<rparr>
     [dirEmpty, leafA] ([], 0, []) =
     ([dirEmpty], 1, [Pretty leafA
        \<lparr>minimal = False, attrMask = 0, parent = ''docs'', diskUsageOnlyAttr = False\<rparr>])
   \<and> breadthFirst exampleExtern plainCommands (rootSt\<lparr>explicitNoPrompt := True\<rparr>) [] =
       (True,
        [SpinPause, SpinPlay, Paginate rootDir,
         Pretty leafA \<lparr>minimal = False, attrMask = 0, parent = ''/docs'', diskUsageOnlyAttr = False\<rparr>,
         Pretty dirEmpty \<lparr>minimal = False, attrMask = 0, parent = ''/docs'', diskUsageOnlyAttr = False\<rparr>,
         SpinPause, SpinPlay, Paginate dirEmpty])"
proof -
  have d: "drain exampleExtern plainCommands (listing (travFile (rootSt\<lparr>explicitNoPrompt := True\<rparr>))) []
       (fetchTrace (rootSt\<lparr>explicitNoPrompt := True\<rparr>) []) =
       (Some [leafA, dirEmpty], fetchTrace (rootSt\<lparr>explicitNoPrompt := True\<rparr>) [])"
    by (simp add: rootSt_def exampleExtern_def plainCommands_def exampleCommands_def
        exampleOpts_def)
  have c: "breadthFirst exampleExtern plainCommands
        (childSt plainCommands (decrementDepth (rootSt\<lparr>explicitNoPrompt := True\<rparr>))
          (levelAttr exampleExtern plainCommands (rootSt\<lparr>explicitNoPrompt := True\<rparr>)) dirEmpty) t =
        (True, t @ [SpinPause, SpinPlay, Paginate dirEmpty])" for t
    by (subst breadthFirst.simps)
       (simp add: Let_def childSt_def decrementDepth_def rootSt_def plainCommands_def
         exampleCommands_def exampleOpts_def sortCollector_def canPromptHere_def)
  show ?thesis
    using renderLoop_partition [where onlyFiles = True and collector = "[dirEmpty, leafA]"
        and tr = "[]" and travSt = "rootSt\<lparr>explicitNoPrompt := True\<rparr>" and x = exampleExtern
        and g = plainCommands and ?tr0.0 = "[]" and collector0 = "[leafA, dirEmpty]"
        and ?tr1.0 = "fetchTrace (rootSt\<lparr>explicitNoPrompt := True\<rparr>) []"
        and opt = "\<lparr>minimal = False, attrMask = 0, parent = ''docs'', diskUsageOnlyAttr = False\<rparr>"]
      d c
    by (simp add: shownEntries_def rootSt_def plainCommands_def exampleCommands_def
        exampleOpts_def decrementDepth_def sortCollector_def levelTrace_def fetchTrace_def
        levelAttr_def newHeadPath_def initAttr_def rootLike_def sepJoin_def exampleExtern_def
        exampleBits_def isMinimal_def diskUsageOnly_def childSt_def)
qed

section \<open>A directory in trash mode\<close>

lemma drain_None_trace:
  "drain x g evs acc tr = (None, tr') \<Longrightarrow> tr' = tr \<or> (\<exists>err. tr' = tr @ [LogFetchErr err])"
  by (induction x g evs acc tr rule: drain.induct) (auto split: if_splits)

lemma drain_length:
  "drain x g evs acc tr = (Some collector, tr') \<Longrightarrow> length collector \<le> length acc + length evs"
  by (induction x g evs acc tr rule: drain.induct) (fastforce split: if_splits)+

lemma length_insertStable: "length (insertStable x ks a bs) = Suc (length bs)"
  by (induction bs) auto

lemma length_sortFiles: "length (sortFiles x fl ks) = length fl"
  by (induction fl) (auto simp: sortFiles_def length_insertStable)

lemma length_sortCollector: "length (sortCollector x travSt collector) = length collector"
  by (simp add: sortCollector_def length_sortFiles)

lemma one_le_word_of_nat:
  assumes "n < 2 ^ 64"
  shows "(1 :: 64 word) \<le> of_nat n \<longleftrightarrow> n \<noteq> 0"
proof -
  have "(of_nat n :: 64 word) = 0 \<longleftrightarrow> n = 0"
    using assms by (auto simp: word_of_nat_eq_0_iff dest: dvd_imp_le)
  moreover have "(1 :: 64 word) \<le> of_nat n \<longleftrightarrow> (of_nat n :: 64 word) \<noteq> 0"
    by (metis word_less_1 not_less)
  ultimately show ?thesis by simp
qed

text \<open>
  C8. A call on a directory with a depth other than zero, in trash mode (the flag of the
  state or of the options), requests the children of that directory only, and returns
  success if and only if it rendered an entry. (\<open>iterCount\<close> is a \<open>uint64\<close>; a
  listing holds fewer than \<open>2 ^ 64\<close> entries.)
\<close>

theorem breadthFirst_trash_success:
  assumes "IsDir (travFile travSt)" and "depth travSt \<noteq> 0"
    and "inTrash travSt \<or> InTrashOpt (opts g)"
    and "length (listing (travFile travSt)) < 2 ^ 64"
  shows "fst (breadthFirst x g travSt tr) =
           list_ex isPretty (drop (length tr) (snd (breadthFirst x g travSt tr)))
       \<and> take (length tr) (snd (breadthFirst x g travSt tr)) = tr
       \<and> filter isPaginate (drop (length tr) (snd (breadthFirst x g travSt tr)))
           = [Paginate (travFile travSt)]"
proof (cases "drain x g (listing (travFile travSt)) [] (fetchTrace travSt tr)")
  case (Pair res tr')
  show ?thesis
  proof (cases res)
    case None
    with Pair have bf: "breadthFirst x g travSt tr = (False, tr')"
      using breadthFirst_drain_None [OF assms(1,2)] by simp
    from Pair None drain_None_trace [of x g _ "[]" "fetchTrace travSt tr" tr']
    have "tr' = fetchTrace travSt tr \<or> (\<exists>err. tr' = fetchTrace travSt tr @ [LogFetchErr err])"
      by simp
    with bf show ?thesis
      by (auto simp: fetchTrace_def isPretty_def isPaginate_def)
  next
    case (Some collector)
    define sortedFs where "sortedFs = sortCollector x (decrementDepth travSt) collector"
    define shown where
      "shown = shownEntries (nonFolderExplicitly x (TypeMask (opts g))) sortedFs"
    from Pair Some have d: "drain x g (listing (travFile travSt)) [] (fetchTrace travSt tr)
        = (Some collector, tr')" by simp
    have "inTrash (decrementDepth travSt) = inTrash travSt" by (simp add: decrementDepth_def)
    with assms(3) breadthFirst_level [OF assms(1,2) d]
    have bf: "breadthFirst x g travSt tr =
        ((1 :: 64 word) \<le> of_nat (length shown), levelTrace x g travSt sortedFs tr)"
      by (auto simp: Let_def sortedFs_def shown_def)
    have "length shown \<le> length sortedFs" by (simp add: shown_def shownEntries_def)
    also have "\<dots> = length collector" by (simp add: sortedFs_def length_sortCollector)
    also have "\<dots> \<le> length (listing (travFile travSt))" using drain_length [OF d] by simp
    finally have "length shown < 2 ^ 64" using assms(4) by simp
    then have ok: "(1 :: 64 word) \<le> of_nat (length shown) \<longleftrightarrow> shown \<noteq> []"
      by (simp add: one_le_word_of_nat)
    have new: "drop (length tr) (levelTrace x g travSt sortedFs tr) =
        [SpinPause, SpinPlay, Paginate (travFile travSt)]
        @ map (\<lambda>f. Pretty f (levelAttr x g travSt)) shown"
      by (simp add: levelTrace_def fetchTrace_def shown_def)
    have ex: "list_ex isPretty (drop (length tr) (levelTrace x g travSt sortedFs tr)) \<longleftrightarrow> shown \<noteq> []"
      unfolding new by (cases shown) (simp_all add: isPretty_def list_ex_iff)
    have pg: "filter isPaginate (drop (length tr) (levelTrace x g travSt sortedFs tr))
        = [Paginate (travFile travSt)]"
      unfolding new by (simp add: isPaginate_def filter_map comp_def)
    have tk: "take (length tr) (levelTrace x g travSt sortedFs tr) = tr"
      by (simp add: levelTrace_def fetchTrace_def)
    from bf ok ex pg tk show ?thesis by simp
  qed
qed

lemma trash_listing_example:
  "breadthFirst exampleExtern plainCommands (rootSt\<lparr>inTrash := True\<rparr>) [] =
     (True,
      [SpinPause, SpinPlay, Paginate rootDir,
       Pretty leafA \<lparr>minimal = False, attrMask = 0, parent = ''/docs'', diskUsageOnlyAttr = False\<rparr>,
       Pretty dirEmpty \<lparr>minimal = False, attrMask = 0, parent = ''/docs'', diskUsageOnlyAttr = False\<rparr>])"
  by (subst breadthFirst.simps)
     (simp add: Let_def rootSt_def decrementDepth_def exampleExtern_def plainCommands_def
       exampleCommands_def exampleOpts_def sortCollector_def canPromptHere_def initAttr_def
       newHeadPath_def rootLike_def sepJoin_def exampleBits_def isMinimal_def diskUsageOnly_def)

lemma trash_empty_example:
  "breadthFirst exampleExtern plainCommands (rootSt\<lparr>travFile := dirEmpty, inTrash := True\<rparr>) [] =
     (False, [SpinPause, SpinPlay, Paginate dirEmpty])"
  by (subst breadthFirst.simps)
     (simp add: Let_def rootSt_def decrementDepth_def plainCommands_def
       exampleCommands_def exampleOpts_def sortCollector_def canPromptHere_def)

theorem breadthFirst_trash_success_witness:
  "fst (breadthFirst exampleExtern plainCommands (rootSt\<lparr>inTrash := True\<rparr>) [])
   \<and> list_ex isPretty (snd (breadthFirst exampleExtern plainCommands (rootSt\<lparr>inTrash := True\<rparr>) []))
   \<and> \<not> fst (breadthFirst exampleExtern plainCommands
             (rootSt\<lparr>travFile := dirEmpty, inTrash := True\<rparr>) [])
   \<and> \<not> list_ex isPretty (snd (breadthFirst exampleExtern plainCommands
             (rootSt\<lparr>travFile := dirEmpty, inTrash := True\<rparr>) []))"
proof -
  have h1: "IsDir (travFile (rootSt\<lparr>inTrash := True\<rparr>))"
    and h2: "depth (rootSt\<lparr>inTrash := True\<rparr>) \<noteq> 0"
    and h3: "inTrash (rootSt\<lparr>inTrash := True\<rparr>) \<or> InTrashOpt (opts plainCommands)"
    and h4: "length (listing (travFile (rootSt\<lparr>inTrash := True\<rparr>))) < 2 ^ 64"
    by (simp_all add: rootSt_def)
  have k1: "IsDir (travFile (rootSt\<lparr>travFile := dirEmpty, inTrash := True\<rparr>))"
    and k2: "depth (rootSt\<lparr>travFile := dirEmpty, inTrash := True\<rparr>) \<noteq> 0"
    and k3: "inTrash (rootSt\<lparr>travFile := dirEmpty, inTrash := True\<rparr>)
         \<or> InTrashOpt (opts plainCommands)"
    and k4: "length (listing (travFile (rootSt\<lparr>travFile := dirEmpty, inTrash := True\<rparr>))) < 2 ^ 64"
    by (simp_all add: rootSt_def)
  show ?thesis
    using breadthFirst_trash_success [OF h1 h2 h3 h4, of exampleExtern "[]"]
      breadthFirst_trash_success [OF k1 k2 k3 k4, of exampleExtern "[]"]
      trash_listing_example trash_empty_example
    by (simp add: isPretty_def)
qed

section \<open>A nil entry on the files channel\<close>

lemma drain_nil:
  "list_all plainEvent pre \<Longrightarrow> drain x g (pre @ FileRecv None # post) acc tr = (None, tr)"
proof (induction pre arbitrary: acc)
  case Nil
  then show ?case by simp
next
  case (Cons ev pre)
  then show ?case
    by (cases ev) (auto simp: plainEvent_def split: option.splits)
qed

lemma matchLoop_nil:
  "matchLoop x g (pre @ FileRecv None # post) n tr = matchLoop x g (pre @ post) n tr"
proof (induction pre arbitrary: n tr)
  case Nil
  then show ?case by simp
next
  case (Cons ev pre)
  show ?case
  proof (cases ev)
    case (ErrRecv e)
    with Cons show ?thesis by (cases e) simp_all
  next
    case (FileRecv f)
    with Cons show ?thesis by (cases f) (simp_all split: prod.splits)
  qed
qed

lemma sharedLoop_nil:
  "sharedLoop x g p (pre @ FileRecv None # post) kvList tr = sharedLoop x g p (pre @ post) kvList tr"
proof (induction pre arbitrary: kvList tr)
  case Nil
  then show ?case by (simp add: Let_def)
next
  case (Cons ev pre)
  show ?case
  proof (cases ev)
    case (ErrRecv e)
    with Cons show ?thesis by (cases e) simp_all
  next
    case (FileRecv f)
    with Cons show ?thesis by (cases f) (simp_all add: Let_def)
  qed
qed

text \<open>
  C10. In the traversal of a directory (depth other than zero), when a nil file is
  received after files and nil errors only, the call returns failure at once: its trace
  ends with the request of the page, so nothing of the level is rendered, and the events
  after the nil file do not matter. In the drains of \<open>ListMatches\<close> and of
  \<open>listSharedPerPath\<close> a nil file changes nothing: the loop behaves as if it had not
  been received, and goes on with the events after it.
\<close>

theorem nil_entry_in_drains:
  "(IsDir (travFile travSt) \<and> depth travSt \<noteq> 0
      \<and> listing (travFile travSt) = pre @ FileRecv None # post \<and> list_all plainEvent pre
    \<longrightarrow> breadthFirst x g travSt tr =
          (False, tr @ [SpinPause, SpinPlay, Paginate (travFile travSt)]))
   \<and> matchLoop x g (pre' @ FileRecv None # post') n tr' = matchLoop x g (pre' @ post') n tr'
   \<and> sharedLoop x g p (pre' @ FileRecv None # post') kvList tr'
       = sharedLoop x g p (pre' @ post') kvList tr'"
proof -
  have "breadthFirst x g travSt tr =
          (False, tr @ [SpinPause, SpinPlay, Paginate (travFile travSt)])"
    if "IsDir (travFile travSt)" "depth travSt \<noteq> 0"
      "listing (travFile travSt) = pre @ FileRecv None # post" "list_all plainEvent pre"
  proof -
    from that(3) drain_nil [OF that(4)]
    have "drain x g (listing (travFile travSt)) [] (fetchTrace travSt tr)
        = (None, fetchTrace travSt tr)" by simp
    from breadthFirst_drain_None [OF that(1,2) this] show ?thesis
      by (simp add: fetchTrace_def)
  qed
  then show ?thesis by (simp add: matchLoop_nil sharedLoop_nil)
qed

theorem nil_entry_in_drains_witness:
  "breadthFirst exampleExtern plainCommands (rootSt\<lparr>travFile := nilDir\<rparr>) [] =
     (False, [SpinPause, SpinPlay, Paginate nilDir])
   \<and> matchLoop exampleExtern plainCommands [FileRecv None, FileRecv (Some leafA)] 0 [] =
       (None, 1, [Pretty leafA
          \<lparr>minimal = False, attrMask = 0, parent = [], diskUsageOnlyAttr = False\<rparr>])
   \<and> fst (fst (sharedLoop exampleExtern plainCommands ''x'' [FileRecv None, FileRecv (Some leafA)] [] []))
       = [([], Some leafA)]"
proof -
  have m: "matchLoop exampleExtern plainCommands ([] @ [FileRecv (Some leafA)]) 0 [] =
       (None, 1, [Pretty leafA
          \<lparr>minimal = False, attrMask = 0, parent = [], diskUsageOnlyAttr = False\<rparr>])"
    by (simp add: breadthFirst_leaf matchSt_def initAttr_def plainCommands_def
        exampleCommands_def exampleOpts_def exampleExtern_def exampleBits_def isMinimal_def
        diskUsageOnly_def)
  have s: "fst (fst (sharedLoop exampleExtern plainCommands ''x'' ([] @ [FileRecv (Some leafA)]) [] []))
       = [([], Some leafA)]"
    by (simp add: Let_def plainCommands_def exampleCommands_def exampleExtern_def rootLike_def)
  show ?thesis
    using nil_entry_in_drains [where travSt = "rootSt\<lparr>travFile := nilDir\<rparr>"
        and pre = "[FileRecv (Some leafA)]" and post = "[FileRecv (Some dirEmpty)]"
        and x = exampleExtern and g = plainCommands and tr = "[]" and pre' = "[]"
        and post' = "[FileRecv (Some leafA)]" and n = 0 and tr' = "[]" and p = "''x''"
        and kvList = "[]"] m s
    by (simp add: rootSt_def nilDir_def plainEvent_def)
qed

section \<open>The head path\<close>

lemma parent_initAttr:
  "parent (initAttr x g travSt) = (if headPath travSt = ''/'' then [] else headPath travSt)"
  by (simp add: initAttr_def)

lemma parent_levelAttr:
  "parent (levelAttr x g travSt) =
     (if rootLike x (parent (initAttr x g travSt)) \<and> rootLike x (Name (travFile travSt))
      then parent (initAttr x g travSt)
      else parent (initAttr x g travSt) @ ''/'' @ Name (travFile travSt))"
  by (simp add: levelAttr_def newHeadPath_def sepJoin_def)

lemma rootLike_step:
  assumes "rootLike x (headPath travSt)" and "rootLike x (Name (travFile travSt))"
  shows "parent (levelAttr x g travSt) = parent (initAttr x g travSt)"
    and "rootLike x (parent (levelAttr x g travSt))"
    and "parent (levelAttr x g travSt) \<noteq> ''/''"
  using assms by (auto simp: parent_levelAttr parent_initAttr rootLike_def)

lemma rootLike_descend:
  assumes "rootLike x (headPath travSt)" and "rootLike x (Name (travFile travSt))"
    and "list_all (\<lambda>c. rootLike x (Name c)) cs"
  shows "parent (levelAttr x g (foldl (descendInto x g) travSt cs)) = parent (levelAttr x g travSt)"
  using assms
proof (induction cs arbitrary: travSt)
  case Nil
  then show ?case by simp
next
  case (Cons c cs)
  let ?st = "descendInto x g travSt c"
  have h: "headPath ?st = parent (levelAttr x g travSt)" and f: "travFile ?st = c"
    by (simp_all add: descendInto_def childSt_def)
  from Cons.prems rootLike_step [of x travSt g]
  have 1: "rootLike x (headPath ?st)" and 2: "rootLike x (Name (travFile ?st))"
    and 3: "headPath ?st \<noteq> ''/''"
    by (simp_all add: h f)
  from Cons.prems have 4: "list_all (\<lambda>c. rootLike x (Name c)) cs" by simp
  have "parent (levelAttr x g ?st) = parent (initAttr x g ?st)"
    using rootLike_step(1) [OF 1 2] .
  also have "\<dots> = parent (levelAttr x g travSt)" using 3 h by (simp add: parent_initAttr)
  finally have "parent (levelAttr x g ?st) = parent (levelAttr x g travSt)" .
  with Cons.IH [OF 1 2 4] show ?case by simp
qed

text \<open>
  C5. The current parent of a call is its head path, with the head path \<open>/\<close> read as
  the empty path. For a directory the new parent, the one its children are rendered
  under and called with, is the current parent, a separator and the name of the
  directory, except when the current parent and the name are both root-like: then it is
  the current parent as it is. In that case, a root-like head path gives a new parent
  that is root-like, namely the empty path or the root marker, so it has no doubled
  separator unless the marker has one; and the step is idempotent: down any chain of
  children with root-like names the new parent stays what it was at the first level.
\<close>

theorem headPath_normalization:
  "parent (initAttr x g travSt) = (if headPath travSt = ''/'' then [] else headPath travSt)
   \<and> parent (levelAttr x g travSt) =
       (if rootLike x (parent (initAttr x g travSt)) \<and> rootLike x (Name (travFile travSt))
        then parent (initAttr x g travSt)
        else sepJoin ''/'' [parent (initAttr x g travSt), Name (travFile travSt)])
   \<and> sepJoin ''/'' [a, b] = a @ ''/'' @ b
   \<and> headPath (descendInto x g travSt c) = parent (levelAttr x g travSt)
   \<and> (rootLike x (headPath travSt) \<and> rootLike x (Name (travFile travSt)) \<longrightarrow>
        rootLike x (parent (levelAttr x g travSt))
        \<and> (parent (levelAttr x g travSt) = [] \<or> parent (levelAttr x g travSt) = rootSentinel x)
        \<and> (\<not> hasDoubleSep (rootSentinel x) \<longrightarrow> \<not> hasDoubleSep (parent (levelAttr x g travSt)))
        \<and> (list_all (\<lambda>c. rootLike x (Name c)) cs \<longrightarrow>
             parent (levelAttr x g (foldl (descendInto x g) travSt cs))
               = parent (levelAttr x g travSt)))"
proof -
  have 1: "parent (levelAttr x g travSt) =
       (if rootLike x (parent (initAttr x g travSt)) \<and> rootLike x (Name (travFile travSt))
        then parent (initAttr x g travSt)
        else sepJoin ''/'' [parent (initAttr x g travSt), Name (travFile travSt)])"
    by (simp add: parent_levelAttr sepJoin_def)
  have 2: "headPath (descendInto x g travSt c) = parent (levelAttr x g travSt)"
    by (simp add: descendInto_def childSt_def)
  have 3: "parent (levelAttr x g travSt) = [] \<or> parent (levelAttr x g travSt) = rootSentinel x"
    if "rootLike x (headPath travSt)" "rootLike x (Name (travFile travSt))"
    using that by (auto simp: parent_levelAttr parent_initAttr rootLike_def)
  have 4: "\<not> hasDoubleSep (parent (levelAttr x g travSt))"
    if "rootLike x (headPath travSt)" "rootLike x (Name (travFile travSt))"
      "\<not> hasDoubleSep (rootSentinel x)"
    using 3 [OF that(1,2)] that(3) by auto
  from 1 2 3 4 rootLike_step(2) [of x travSt g] rootLike_descend [of x travSt cs g]
  show ?thesis by (auto simp: parent_initAttr sepJoin_def)
qed

theorem headPath_normalization_witness:
  "parent (levelAttr exampleExtern plainCommands (rootSt\<lparr>travFile := driveRoot, headPath := ''/''\<rparr>)) = []
   \<and> parent (levelAttr exampleExtern plainCommands
        (foldl (descendInto exampleExtern plainCommands)
           (rootSt\<lparr>travFile := driveRoot, headPath := ''/''\<rparr>) [driveRoot, driveRoot])) = []
   \<and> parent (levelAttr exampleExtern plainCommands (rootSt\<lparr>headPath := ''/''\<rparr>)) = ''/docs''
   \<and> parent (levelAttr exampleExtern plainCommands (rootSt\<lparr>headPath := ''a''\<rparr>)) = ''a/docs''"
proof -
  have n: "Name driveRoot = []" by (simp add: driveRoot_def)
  show ?thesis
    using headPath_normalization [where x = exampleExtern and g = plainCommands
        and travSt = "rootSt\<lparr>travFile := driveRoot, headPath := ''/''\<rparr>"
        and cs = "[driveRoot, driveRoot]"]
      headPath_normalization [where x = exampleExtern and g = plainCommands
        and travSt = "rootSt\<lparr>headPath := ''/''\<rparr>"]
      headPath_normalization [where x = exampleExtern and g = plainCommands
        and travSt = "rootSt\<lparr>headPath := ''a''\<rparr>"]
    by (simp add: n rootLike_def sepJoin_def rootSt_def exampleExtern_def)
qed

section \<open>Induction over the traversal\<close>

lemma breadthFirst_cases_induct [case_names leaf depth0 failed level]:
  assumes leaf: "\<And>travSt tr. \<not> IsDir (travFile travSt) \<Longrightarrow> P travSt tr"
    and depth0: "\<And>travSt tr. IsDir (travFile travSt) \<Longrightarrow> depth travSt = 0 \<Longrightarrow> P travSt tr"
    and failed: "\<And>travSt tr tr'. IsDir (travFile travSt) \<Longrightarrow> depth travSt \<noteq> 0 \<Longrightarrow>
        drain x g (listing (travFile travSt)) [] (fetchTrace travSt tr) = (None, tr') \<Longrightarrow>
        P travSt tr"
    and level: "\<And>travSt tr collector tr'. IsDir (travFile travSt) \<Longrightarrow> depth travSt \<noteq> 0 \<Longrightarrow>
        drain x g (listing (travFile travSt)) [] (fetchTrace travSt tr) = (Some collector, tr') \<Longrightarrow>
        (\<And>c t. c \<in> set (filter IsDir (sortCollector x (decrementDepth travSt) collector)) \<Longrightarrow>
           P (descendInto x g travSt c) t) \<Longrightarrow>
        P travSt tr"
  shows "P travSt tr"
proof (induction "size (travFile travSt)" arbitrary: travSt tr rule: less_induct)
  case (less travSt tr)
  show ?case
  proof (cases "IsDir (travFile travSt)")
    case False
    then show ?thesis by (rule leaf)
  next
    case dir: True
    show ?thesis
    proof (cases "depth travSt = 0")
      case True
      with dir show ?thesis by (rule depth0)
    next
      case nz: False
      show ?thesis
      proof (cases "drain x g (listing (travFile travSt)) [] (fetchTrace travSt tr)")
        case (Pair res tr')
        show ?thesis
        proof (cases res)
          case None
          with Pair dir nz show ?thesis by (auto intro: failed)
        next
          case (Some collector)
          with Pair have d: "drain x g (listing (travFile travSt)) [] (fetchTrace travSt tr)
              = (Some collector, tr')" by simp
          show ?thesis
          proof (rule level [OF dir nz d])
            fix c t
            assume "c \<in> set (filter IsDir (sortCollector x (decrementDepth travSt) collector))"
            then have "c \<in> set (sortCollector x (decrementDepth travSt) collector)" by simp
            from child_smaller [OF d this]
            have "size (travFile (descendInto x g travSt c)) < size (travFile travSt)"
              by (simp add: descendInto_def childSt_def)
            then show "P (descendInto x g travSt c) t" by (rule less)
          qed
        qed
      qed
    qed
  qed
qed

lemma breadthFirst_level':
  assumes "IsDir (travFile travSt)" and "depth travSt \<noteq> 0"
    and "drain x g (listing (travFile travSt)) [] (fetchTrace travSt tr) = (Some collector, tr')"
  shows "breadthFirst x g travSt tr =
     (let st = decrementDepth travSt;
          sortedFs = sortCollector x st collector;
          children = filter IsDir sortedFs;
          tr2 = levelTrace x g travSt sortedFs tr
      in if \<not> inTrash st \<and> \<not> InTrashOpt (opts g) then
           (if (depth st \<noteq> 0 \<and> length children > 0) \<and> canPromptHere x g st then
              (if \<not> nextPage x (promptsAsked tr2) then (False, tr2 @ [Prompt False])
               else forChildren (\<lambda>c. breadthFirst x g (descendInto x g travSt c))
                      children (tr2 @ [Prompt True]))
            else forChildren (\<lambda>c. breadthFirst x g (descendInto x g travSt c)) children tr2)
         else ((1 :: 64 word) \<le> of_nat (length
                 (shownEntries (nonFolderExplicitly x (TypeMask (opts g))) sortedFs)), tr2))"
  using breadthFirst_level [OF assms] by (simp add: descendInto_def Let_def)

text \<open>
  A property of the new events of a call that holds of no events and of two runs of
  events one after the other holds of the loop over the children when it holds of every
  child.
\<close>

lemma forChildren_new:
  assumes "S []" and "\<And>a b. S a \<Longrightarrow> S b \<Longrightarrow> S (a @ b)"
    and "\<And>c t. c \<in> set cs \<Longrightarrow> \<exists>new. snd (visit c t) = t @ new \<and> S new"
  shows "\<exists>new. snd (forChildren visit cs tr) = tr @ new \<and> S new"
  using assms(3)
proof (induction cs arbitrary: tr)
  case Nil
  with assms(1) show ?case by simp
next
  case (Cons c cs)
  from Cons.prems [of c tr] obtain new where new: "snd (visit c tr) = tr @ new" "S new"
    by auto
  show ?case
  proof (cases "fst (visit c tr)")
    case False
    with new show ?thesis by (auto split: prod.splits)
  next
    case True
    from Cons.IH [of "tr @ new"] Cons.prems
    obtain new' where "snd (forChildren visit cs (tr @ new)) = (tr @ new) @ new'" "S new'"
      by auto
    with True new assms(2) [of new new'] show ?thesis
      by (cases "visit c tr") auto
  qed
qed

lemma drain_new:
  assumes "drain x g evs acc tr = (res, tr')"
  shows "tr' = tr \<or> (\<exists>err. tr' = tr @ [LogFetchErr err])"
  using assms drain_None_trace [of x g evs acc tr tr'] drain_Some_trace [of x g evs acc tr _ tr']
  by (cases res) auto

section \<open>The prompt\<close>

lemma noPromptFirst_append: "noPromptFirst a \<Longrightarrow> noPromptFirst b \<Longrightarrow> noPromptFirst (a @ b)"
  by (cases a) (simp_all add: noPromptFirst_def)

lemma breadthFirst_noPromptFirst:
  "\<exists>new. snd (breadthFirst x g travSt tr) = tr @ new \<and> noPromptFirst new"
proof (induction travSt tr rule: breadthFirst_cases_induct [where x = x and g = g])
  case (leaf travSt tr)
  then show ?case by (simp add: breadthFirst_leaf noPromptFirst_def isPrompt_def)
next
  case (depth0 travSt tr)
  then show ?case by (simp add: breadthFirst_depth0 noPromptFirst_def)
next
  case (failed travSt tr tr')
  from drain_new [OF failed(3)] breadthFirst_drain_None [OF failed]
  show ?case by (auto simp: fetchTrace_def noPromptFirst_def isPrompt_def)
next
  case (level travSt tr collector tr')
  define sortedFs where "sortedFs = sortCollector x (decrementDepth travSt) collector"
  define tr2 where "tr2 = levelTrace x g travSt sortedFs tr"
  obtain lv where tr2: "tr2 = tr @ SpinPause # lv"
    by (simp add: tr2_def levelTrace_def fetchTrace_def)
  have kids: "\<exists>new. snd (forChildren (\<lambda>c. breadthFirst x g (descendInto x g travSt c))
      (filter IsDir sortedFs) t) = t @ new \<and> True" for t
  proof (rule forChildren_new [where S = "\<lambda>new. True"])
    fix c t
    assume "c \<in> set (filter IsDir sortedFs)"
    with level(4) [of c t]
    show "\<exists>new. snd (breadthFirst x g (descendInto x g travSt c) t) = t @ new \<and> True"
      by (auto simp: sortedFs_def)
  qed simp_all
  from kids [of tr2] kids [of "tr2 @ [Prompt True]"] breadthFirst_level' [OF level(1-3)]
  show ?case
    by (auto simp: Let_def sortedFs_def [symmetric] tr2_def [symmetric] tr2 noPromptFirst_def
        isPrompt_def)
qed

lemma prompt_decision:
  assumes dir: "IsDir (travFile travSt)" and nz: "depth travSt \<noteq> 0"
    and dr: "drain x g (listing (travFile travSt)) [] (fetchTrace travSt tr) = (Some collector, tr')"
  shows "promptedAfter (renderedTrace x g travSt collector tr) (snd (breadthFirst x g travSt tr))
      \<longleftrightarrow> \<not> (depth (decrementDepth travSt) = 0 \<or> levelChildren x travSt collector = []
             \<or> explicitNoPrompt travSt \<or> inTrash travSt \<or> InTrashOpt (opts g)
             \<or> \<not> optsCanPrompt x (opts g))"
    and "promptedAfter (renderedTrace x g travSt collector tr) (snd (breadthFirst x g travSt tr))
      \<Longrightarrow> \<not> nextPage x (promptsAsked (renderedTrace x g travSt collector tr))
      \<Longrightarrow> breadthFirst x g travSt tr =
            (False, renderedTrace x g travSt collector tr @ [Prompt False])"
proof -
  define tr2 where "tr2 = renderedTrace x g travSt collector tr"
  define children where "children = levelChildren x travSt collector"
  define visit where "visit = (\<lambda>c. breadthFirst x g (descendInto x g travSt c))"
  define asks where "asks \<longleftrightarrow> \<not> (depth (decrementDepth travSt) = 0 \<or> children = []
             \<or> explicitNoPrompt travSt \<or> inTrash travSt \<or> InTrashOpt (opts g)
             \<or> \<not> optsCanPrompt x (opts g))"
  have kids: "\<exists>new. snd (forChildren visit children t) = t @ new \<and> noPromptFirst new" for t
  proof (rule forChildren_new [where S = noPromptFirst])
    show "noPromptFirst []" by (simp add: noPromptFirst_def)
    show "\<And>a b. noPromptFirst a \<Longrightarrow> noPromptFirst b \<Longrightarrow> noPromptFirst (a @ b)"
      by (rule noPromptFirst_append)
    show "\<And>c t. c \<in> set children \<Longrightarrow> \<exists>new. snd (visit c t) = t @ new \<and> noPromptFirst new"
      unfolding visit_def by (rule breadthFirst_noPromptFirst)
  qed
  have st: "inTrash (decrementDepth travSt) = inTrash travSt"
    "canPromptHere x g (decrementDepth travSt)
       = (\<not> explicitNoPrompt travSt \<and> optsCanPrompt x (opts g))"
    by (auto simp: decrementDepth_def canPromptHere_def Let_def)
  have bf: "breadthFirst x g travSt tr =
      (if \<not> inTrash travSt \<and> \<not> InTrashOpt (opts g) then
         (if asks then
            (if \<not> nextPage x (promptsAsked tr2) then (False, tr2 @ [Prompt False])
             else forChildren visit children (tr2 @ [Prompt True]))
          else forChildren visit children tr2)
       else ((1 :: 64 word) \<le> of_nat (length
               (shownEntries (nonFolderExplicitly x (TypeMask (opts g)))
                  (sortCollector x (decrementDepth travSt) collector))), tr2))"
    using breadthFirst_level' [OF dir nz dr]
    by (auto simp: Let_def st asks_def children_def levelChildren_def tr2_def renderedTrace_def
        visit_def)
  have a: "promptedAfter tr2 (snd (breadthFirst x g travSt tr)) \<longleftrightarrow> asks"
  proof (cases "\<not> inTrash travSt \<and> \<not> InTrashOpt (opts g)")
    case False
    with bf have "snd (breadthFirst x g travSt tr) = tr2" by auto
    moreover from False have "\<not> asks" by (auto simp: asks_def)
    ultimately show ?thesis by (simp add: promptedAfter_def)
  next
    case nt: True
    show ?thesis
    proof (cases asks)
      case False
      from kids [of tr2] obtain new
        where "snd (forChildren visit children tr2) = tr2 @ new" "noPromptFirst new" by auto
      with bf nt False show ?thesis
        by (cases new) (simp_all add: promptedAfter_def noPromptFirst_def)
    next
      case True
      from kids [of "tr2 @ [Prompt True]"] obtain new
        where "snd (forChildren visit children (tr2 @ [Prompt True])) = tr2 @ Prompt True # new"
        by auto
      with bf nt True show ?thesis
        by (simp add: promptedAfter_def isPrompt_def)
    qed
  qed
  from a show "promptedAfter (renderedTrace x g travSt collector tr)
        (snd (breadthFirst x g travSt tr))
      \<longleftrightarrow> \<not> (depth (decrementDepth travSt) = 0 \<or> levelChildren x travSt collector = []
             \<or> explicitNoPrompt travSt \<or> inTrash travSt \<or> InTrashOpt (opts g)
             \<or> \<not> optsCanPrompt x (opts g))"
    by (simp add: tr2_def asks_def children_def)
  assume "promptedAfter (renderedTrace x g travSt collector tr) (snd (breadthFirst x g travSt tr))"
    and no: "\<not> nextPage x (promptsAsked (renderedTrace x g travSt collector tr))"
  with a have asks by (simp add: tr2_def)
  then have "\<not> inTrash travSt \<and> \<not> InTrashOpt (opts g)" by (auto simp: asks_def)
  with bf \<open>asks\<close> no show "breadthFirst x g travSt tr =
            (False, renderedTrace x g travSt collector tr @ [Prompt False])"
    by (simp add: tr2_def)
qed

lemma rootSt_drain:
  "drain x plainCommands (listing (travFile rootSt)) [] (fetchTrace rootSt []) =
     (if isHidden x ''a.txt'' False then
        (if isHidden x ''sub'' False then Some [] else Some [dirEmpty])
      else (if isHidden x ''sub'' False then Some [leafA] else Some [leafA, dirEmpty]),
      fetchTrace rootSt [])"
  by (simp add: rootSt_def plainCommands_def exampleCommands_def exampleOpts_def)

lemma dirEmpty_visit:
  "breadthFirst x plainCommands (descendInto x plainCommands rootSt dirEmpty) t =
     (True, t @ [SpinPause, SpinPlay, Paginate dirEmpty])"
  by (subst breadthFirst.simps)
     (simp add: Let_def descendInto_def childSt_def decrementDepth_def rootSt_def
       plainCommands_def exampleCommands_def exampleOpts_def sortCollector_def)

lemma rootSt_facts:
  "travFile rootSt = rootDir" "depth (decrementDepth rootSt) = 1"
  "sortCollector x (decrementDepth rootSt) collector = collector"
  "inTrash (decrementDepth rootSt) = False" "inTrash rootSt = False"
  "explicitNoPrompt rootSt = False" "InTrashOpt (opts plainCommands) = False"
  "TypeMask (opts plainCommands) = 0"
  "nonFolderExplicitly exampleExtern 0 = False" "nonFolderExplicitly quietExtern 0 = False"
  by (simp_all add: rootSt_def decrementDepth_def sortCollector_def plainCommands_def
      exampleCommands_def exampleOpts_def exampleExtern_def quietExtern_def)

lemma rootSt_attr:
  "levelAttr exampleExtern plainCommands rootSt =
     \<lparr>minimal = False, attrMask = 0, parent = ''/docs'', diskUsageOnlyAttr = False\<rparr>"
  "levelAttr quietExtern plainCommands rootSt =
     \<lparr>minimal = False, attrMask = 0, parent = ''/docs'', diskUsageOnlyAttr = False\<rparr>"
  by (simp_all add: levelAttr_def newHeadPath_def initAttr_def rootLike_def sepJoin_def
      rootSt_def plainCommands_def exampleCommands_def exampleOpts_def exampleExtern_def
      quietExtern_def exampleBits_def isMinimal_def diskUsageOnly_def)

text \<open>
  C3, as the claim has it, fails: at depth two, with a directory among the children, no
  explicit no-prompt flag and no trash mode, none of the four conditions holds; when
  \<open>Options.canPrompt\<close> answers no, the prompt is skipped all the same, and the
  traversal goes on into the child directory.
\<close>

theorem prompt_skipped_counterexample:
  "breadthFirst quietExtern plainCommands rootSt [] =
     (True,
      [SpinPause, SpinPlay, Paginate rootDir,
       Pretty leafA \<lparr>minimal = False, attrMask = 0, parent = ''/docs'', diskUsageOnlyAttr = False\<rparr>,
       Pretty dirEmpty \<lparr>minimal = False, attrMask = 0, parent = ''/docs'', diskUsageOnlyAttr = False\<rparr>,
       SpinPause, SpinPlay, Paginate dirEmpty])
   \<and> depth (decrementDepth rootSt) = 1
   \<and> levelChildren quietExtern rootSt [leafA, dirEmpty] = [dirEmpty]
   \<and> \<not> explicitNoPrompt rootSt \<and> \<not> inTrash rootSt \<and> \<not> InTrashOpt (opts plainCommands)"
proof -
  have d: "drain quietExtern plainCommands (listing (travFile rootSt)) [] (fetchTrace rootSt [])
      = (Some [leafA, dirEmpty], fetchTrace rootSt [])"
    by (simp add: rootSt_drain) (simp add: quietExtern_def exampleExtern_def)
  have h: "IsDir (travFile rootSt)" "depth rootSt \<noteq> 0" by (simp_all add: rootSt_def)
  have "\<not> canPromptHere quietExtern plainCommands (decrementDepth rootSt)"
    by (simp add: canPromptHere_def quietExtern_def exampleExtern_def)
  with breadthFirst_level' [OF h d]
  have "breadthFirst quietExtern plainCommands rootSt [] =
     (True,
      [SpinPause, SpinPlay, Paginate rootDir,
       Pretty leafA \<lparr>minimal = False, attrMask = 0, parent = ''/docs'', diskUsageOnlyAttr = False\<rparr>,
       Pretty dirEmpty \<lparr>minimal = False, attrMask = 0, parent = ''/docs'', diskUsageOnlyAttr = False\<rparr>,
       SpinPause, SpinPlay, Paginate dirEmpty])"
    by (simp add: Let_def dirEmpty_visit rootSt_facts rootSt_attr levelTrace_def fetchTrace_def
        shownEntries_def)
  then show ?thesis
    by (simp add: levelChildren_def rootSt_facts)
qed

text \<open>
  C3, amended. At a directory whose page has been collected, the prompt is issued right
  after the level is rendered, and it is skipped exactly when one of these holds: the
  depth left for the children is zero, there is no directory among the children,
  prompting is disabled for the branch (\<open>explicitNoPrompt\<close>), the traversal is in trash
  mode (by the state or by the options), or \<open>Options.canPrompt\<close> answers no. When the
  prompt is issued and the answer is no, the call returns failure with the prompt as the
  last event of its trace: no child is visited.
\<close>

theorem prompt_issued_iff:
  assumes "IsDir (travFile travSt)" and "depth travSt \<noteq> 0"
    and "drain x g (listing (travFile travSt)) [] (fetchTrace travSt tr) = (Some collector, tr')"
  shows "(promptedAfter (renderedTrace x g travSt collector tr) (snd (breadthFirst x g travSt tr))
      \<longleftrightarrow> \<not> (depth (decrementDepth travSt) = 0 \<or> levelChildren x travSt collector = []
             \<or> explicitNoPrompt travSt \<or> inTrash travSt \<or> InTrashOpt (opts g)
             \<or> \<not> optsCanPrompt x (opts g)))
    \<and> (promptedAfter (renderedTrace x g travSt collector tr) (snd (breadthFirst x g travSt tr))
        \<and> \<not> nextPage x (promptsAsked (renderedTrace x g travSt collector tr))
      \<longrightarrow> breadthFirst x g travSt tr =
            (False, renderedTrace x g travSt collector tr @ [Prompt False]))"
  using prompt_decision [OF assms] by blast

theorem prompt_issued_iff_witness:
  "breadthFirst exampleExtern plainCommands rootSt [] =
     (False,
      [SpinPause, SpinPlay, Paginate rootDir,
       Pretty leafA \<lparr>minimal = False, attrMask = 0, parent = ''/docs'', diskUsageOnlyAttr = False\<rparr>,
       Pretty dirEmpty \<lparr>minimal = False, attrMask = 0, parent = ''/docs'', diskUsageOnlyAttr = False\<rparr>,
       Prompt False])
   \<and> \<not> promptedAfter (renderedTrace exampleExtern plainCommands (rootSt\<lparr>depth := 1\<rparr>)
          [leafA, dirEmpty] [])
        (snd (breadthFirst exampleExtern plainCommands (rootSt\<lparr>depth := 1\<rparr>) []))"
proof -
  have d: "drain exampleExtern plainCommands (listing (travFile rootSt)) [] (fetchTrace rootSt [])
      = (Some [leafA, dirEmpty], fetchTrace rootSt [])"
    by (simp add: rootSt_drain) (simp add: exampleExtern_def)
  have h: "IsDir (travFile rootSt)" "depth rootSt \<noteq> 0" by (simp_all add: rootSt_def)
  have d1: "drain exampleExtern plainCommands (listing (travFile (rootSt\<lparr>depth := 1\<rparr>))) []
      (fetchTrace (rootSt\<lparr>depth := 1\<rparr>) [])
      = (Some [leafA, dirEmpty], fetchTrace (rootSt\<lparr>depth := 1\<rparr>) [])"
    using d by (simp add: fetchTrace_def)
  have h1: "IsDir (travFile (rootSt\<lparr>depth := 1\<rparr>))" "depth (rootSt\<lparr>depth := 1\<rparr>) \<noteq> 0"
    by (simp_all add: rootSt_def)
  have r: "renderedTrace exampleExtern plainCommands rootSt [leafA, dirEmpty] [] =
      [SpinPause, SpinPlay, Paginate rootDir,
       Pretty leafA \<lparr>minimal = False, attrMask = 0, parent = ''/docs'', diskUsageOnlyAttr = False\<rparr>,
       Pretty dirEmpty \<lparr>minimal = False, attrMask = 0, parent = ''/docs'', diskUsageOnlyAttr = False\<rparr>]"
    by (simp add: renderedTrace_def levelTrace_def fetchTrace_def shownEntries_def rootSt_attr
        rootSt_facts)
  have c: "levelChildren exampleExtern rootSt [leafA, dirEmpty] = [dirEmpty]"
    by (simp add: levelChildren_def rootSt_facts)
  have n: "\<not> nextPage exampleExtern k" for k by (simp add: exampleExtern_def)
  have o: "optsCanPrompt exampleExtern (opts plainCommands)"
    "depth (decrementDepth (rootSt\<lparr>depth := 1\<rparr>)) = 0"
    by (simp_all add: rootSt_def decrementDepth_def exampleExtern_def)
  show ?thesis
    using prompt_issued_iff [OF h d] prompt_issued_iff [OF h1 d1] r c n o
    by (simp add: rootSt_facts)
qed

section \<open>The depth\<close>

lemma root_within: "f \<in> set (withinDepth n f)"
  by (cases n) simp_all

lemma child_within:
  "c \<in> set (childFiles f) \<Longrightarrow> set (withinDepth n c) \<subseteq> set (withinDepth (Suc n) f)"
  by auto

lemma fold_max_ge: "(a::nat) \<le> fold max xs a"
  by (induction xs arbitrary: a) (auto intro: order_trans [OF max.cobounded2])

lemma fold_max_mem: "(v::nat) \<in> set xs \<Longrightarrow> v \<le> fold max xs a"
proof (induction xs arbitrary: a)
  case Nil
  then show ?case by simp
next
  case (Cons y ys)
  show ?case
  proof (cases "v = y")
    case True
    have "y \<le> max y a" by simp
    also have "\<dots> \<le> fold max ys (max y a)" by (rule fold_max_ge)
    finally show ?thesis using True by simp
  next
    case False
    with Cons show ?thesis by simp
  qed
qed

lemma height_child: "c \<in> set (childFiles f) \<Longrightarrow> height c < height f"
proof -
  assume "c \<in> set (childFiles f)"
  then have "Suc (height c) \<in> set (map (\<lambda>c. Suc (height c)) (childFiles f))" by auto
  from fold_max_mem [OF this, of 0] show ?thesis by (subst (2) height.simps) simp
qed

lemma visitsWithin_append:
  "visitsWithin n r a \<Longrightarrow> visitsWithin n r b \<Longrightarrow> visitsWithin n r (a @ b)"
  by (simp add: visitsWithin_def)

lemma visitsWithin_child:
  assumes "c \<in> set (childFiles f)" and "visitsWithin n c new"
  shows "visitsWithin (Suc n) f new"
  using assms child_within [OF assms(1), of n]
  unfolding visitsWithin_def list_all_iff
  by (auto split: option.splits)

lemma collector_children:
  assumes "drain x g (listing f) [] tr = (Some collector, tr')"
  shows "set (sortCollector x st collector) \<subseteq> set (childFiles f)"
  using drain_files [OF assms] by (auto simp: set_sortCollector set_childFiles)

lemma breadthFirst_within:
  "0 \<le> depth travSt \<longrightarrow>
     (\<exists>new. snd (breadthFirst x g travSt tr) = tr @ new
        \<and> visitsWithin (nat (depth travSt)) (travFile travSt) new)"
proof (induction travSt tr rule: breadthFirst_cases_induct [where x = x and g = g])
  case (leaf travSt tr)
  then show ?case
    by (simp add: breadthFirst_leaf visitsWithin_def eventFile_def root_within)
next
  case (depth0 travSt tr)
  then show ?case by (simp add: breadthFirst_depth0 visitsWithin_def)
next
  case (failed travSt tr tr')
  from drain_new [OF failed(3)] breadthFirst_drain_None [OF failed]
  show ?case
    by (auto simp: fetchTrace_def visitsWithin_def eventFile_def root_within)
next
  case (level travSt tr collector tr')
  show ?case
  proof
    assume nonneg: "0 \<le> depth travSt"
    define n where "n = nat (depth travSt - 1)"
    from nonneg level(2) have n: "nat (depth travSt) = Suc n" "depth travSt = int (Suc n)"
      by (simp_all add: n_def)
    let ?f = "travFile travSt"
    define sortedFs where "sortedFs = sortCollector x (decrementDepth travSt) collector"
    define visit where "visit = (\<lambda>c. breadthFirst x g (descendInto x g travSt c))"
    define lv where "lv = [SpinPause, SpinPlay, Paginate ?f] @
       map (\<lambda>f. Pretty f (levelAttr x g travSt))
         (shownEntries (nonFolderExplicitly x (TypeMask (opts g))) sortedFs)"
    have tr2: "levelTrace x g travSt sortedFs tr = tr @ lv"
      by (simp add: levelTrace_def fetchTrace_def lv_def)
    have sub: "set sortedFs \<subseteq> set (childFiles ?f)"
      unfolding sortedFs_def using level(3) by (rule collector_children)
    have "c \<in> set (withinDepth (Suc n) ?f)"
      if "c \<in> set (shownEntries (nonFolderExplicitly x (TypeMask (opts g))) sortedFs)" for c
    proof -
      from that sub have "c \<in> set (childFiles ?f)" by (auto simp: shownEntries_def)
      with root_within [of c n] show ?thesis by auto
    qed
    then have lvW: "visitsWithin (Suc n) ?f lv"
      using root_within [of ?f "Suc n"]
      by (auto simp: lv_def visitsWithin_def eventFile_def list_all_iff
          simp del: withinDepth.simps)
    have kids: "\<exists>new. snd (forChildren visit (filter IsDir sortedFs) t) = t @ new
        \<and> visitsWithin (Suc n) ?f new" for t
    proof (rule forChildren_new [where S = "visitsWithin (Suc n) ?f"])
      show "visitsWithin (Suc n) ?f []" by (simp add: visitsWithin_def)
      show "\<And>a b. visitsWithin (Suc n) ?f a \<Longrightarrow> visitsWithin (Suc n) ?f b
          \<Longrightarrow> visitsWithin (Suc n) ?f (a @ b)"
        by (rule visitsWithin_append)
      fix c t
      assume c: "c \<in> set (filter IsDir sortedFs)"
      have dc: "depth (descendInto x g travSt c) = int n" "travFile (descendInto x g travSt c) = c"
        using n by (simp_all add: descendInto_def childSt_def decrementDepth_def)
      from c level(4) [of c t] dc obtain new
        where new: "snd (visit c t) = t @ new" "visitsWithin n c new"
        by (auto simp: sortedFs_def visit_def)
      from c sub have "c \<in> set (childFiles ?f)" by auto
      from visitsWithin_child [OF this new(2)] new(1)
      show "\<exists>new. snd (visit c t) = t @ new \<and> visitsWithin (Suc n) ?f new" by blast
    qed
    from kids [of "tr @ lv"] obtain k1
      where k1: "snd (forChildren visit (filter IsDir sortedFs) (tr @ lv)) = (tr @ lv) @ k1"
        "visitsWithin (Suc n) ?f k1" by blast
    from kids [of "(tr @ lv) @ [Prompt True]"] obtain k2
      where k2: "snd (forChildren visit (filter IsDir sortedFs) ((tr @ lv) @ [Prompt True]))
          = ((tr @ lv) @ [Prompt True]) @ k2"
        "visitsWithin (Suc n) ?f k2" by blast
    have p: "visitsWithin (Suc n) ?f [Prompt b]" for b
      by (simp add: visitsWithin_def eventFile_def)
    have "snd (breadthFirst x g travSt tr) = tr @ lv
        \<or> snd (breadthFirst x g travSt tr) = tr @ lv @ [Prompt False]
        \<or> snd (breadthFirst x g travSt tr) = tr @ lv @ k1
        \<or> snd (breadthFirst x g travSt tr) = tr @ lv @ [Prompt True] @ k2"
      using breadthFirst_level' [OF level(1-3)] k1(1) k2(1)
      by (auto simp: Let_def sortedFs_def [symmetric] visit_def [symmetric] tr2)
    moreover have "visitsWithin (Suc n) ?f (lv @ [Prompt False])"
      "visitsWithin (Suc n) ?f (lv @ k1)" "visitsWithin (Suc n) ?f (lv @ [Prompt True] @ k2)"
      using lvW k1(2) k2(2) by (simp_all add: visitsWithin_def eventFile_def)
    ultimately show "\<exists>new. snd (breadthFirst x g travSt tr) = tr @ new
        \<and> visitsWithin (nat (depth travSt)) (travFile travSt) new"
      using lvW n(1) by auto
  qed
qed

lemma depth_update_facts:
  "travFile (travSt\<lparr>depth := n\<rparr>) = travFile travSt"
  "fetchTrace (travSt\<lparr>depth := n\<rparr>) tr = fetchTrace travSt tr"
  "initAttr x g (travSt\<lparr>depth := n\<rparr>) = initAttr x g travSt"
  "levelAttr x g (travSt\<lparr>depth := n\<rparr>) = levelAttr x g travSt"
  "sortCollector x (travSt\<lparr>depth := n\<rparr>) collector = sortCollector x travSt collector"
  "levelTrace x g (travSt\<lparr>depth := n\<rparr>) fs tr = levelTrace x g travSt fs tr"
  "canPromptHere x g (travSt\<lparr>depth := n\<rparr>) = canPromptHere x g travSt"
  "inTrash (travSt\<lparr>depth := n\<rparr>) = inTrash travSt"
  by (simp_all add: fetchTrace_def initAttr_def levelAttr_def sortCollector_def levelTrace_def
      canPromptHere_def)

lemma breadthFirst_unbounded:
  "depth travSt < 0 \<longrightarrow>
     (\<forall>n. int (height (travFile travSt)) < n \<longrightarrow>
        breadthFirst x g (travSt\<lparr>depth := n\<rparr>) tr = breadthFirst x g travSt tr)"
proof (induction travSt tr rule: breadthFirst_cases_induct [where x = x and g = g])
  case (leaf travSt tr)
  then show ?case by (simp add: breadthFirst_leaf depth_update_facts)
next
  case (depth0 travSt tr)
  then show ?case by simp
next
  case (failed travSt tr tr')
  show ?case
  proof (intro impI allI)
    fix n
    assume "depth travSt < 0" and n: "int (height (travFile travSt)) < n"
    from n have nz: "depth (travSt\<lparr>depth := n\<rparr>) \<noteq> 0" by simp
    from failed(1) have dir: "IsDir (travFile (travSt\<lparr>depth := n\<rparr>))" by simp
    from failed(3) have "drain x g (listing (travFile (travSt\<lparr>depth := n\<rparr>))) []
        (fetchTrace (travSt\<lparr>depth := n\<rparr>) tr) = (None, tr')"
      by (simp add: depth_update_facts)
    from breadthFirst_drain_None [OF dir nz this] breadthFirst_drain_None [OF failed]
    show "breadthFirst x g (travSt\<lparr>depth := n\<rparr>) tr = breadthFirst x g travSt tr" by simp
  qed
next
  case (level travSt tr collector tr')
  show ?case
  proof (intro impI allI)
    fix n
    assume neg: "depth travSt < 0" and n: "int (height (travFile travSt)) < n"
    let ?st = "travSt\<lparr>depth := n\<rparr>"
    let ?f = "travFile travSt"
    define children where "children = filter IsDir (sortCollector x travSt collector)"
    from n have nz: "depth ?st \<noteq> 0" by simp
    from level(1) have dir: "IsDir (travFile ?st)" by simp
    from level(3) have dr: "drain x g (listing (travFile ?st)) [] (fetchTrace ?st tr)
        = (Some collector, tr')"
      by (simp add: depth_update_facts)
    from neg have dec: "decrementDepth travSt = travSt" by (simp add: decrementDepth_def)
    from n have dec': "decrementDepth ?st = travSt\<lparr>depth := n - 1\<rparr>"
      by (simp add: decrementDepth_def)
    have sub: "set children \<subseteq> set (childFiles ?f)"
      using collector_children [OF level(3), of travSt] by (auto simp: children_def)
    have deep: "n - 1 \<noteq> 0" if "children \<noteq> []"
    proof -
      from that obtain c where "c \<in> set children" by (cases children) auto
      with sub have "height c < height ?f" by (auto intro: height_child)
      with n show ?thesis by simp
    qed
    have visit: "breadthFirst x g (descendInto x g ?st c) t
        = breadthFirst x g (descendInto x g travSt c) t" if c: "c \<in> set children" for c t
    proof -
      have d: "descendInto x g ?st c = (descendInto x g travSt c)\<lparr>depth := n - 1\<rparr>"
        by (simp add: descendInto_def childSt_def dec dec' depth_update_facts)
      have "depth (descendInto x g travSt c) < 0" "travFile (descendInto x g travSt c) = c"
        using neg by (simp_all add: descendInto_def childSt_def dec)
      moreover from c sub have "height c < height ?f" by (auto intro: height_child)
      with n have "int (height c) < n - 1" by simp
      moreover from c have "c \<in> set (filter IsDir (sortCollector x (decrementDepth travSt) collector))"
        by (simp add: children_def dec)
      ultimately show ?thesis using level(4) [of c t] d by simp
    qed
    have kids: "forChildren (\<lambda>c. breadthFirst x g (descendInto x g ?st c)) children t
        = forChildren (\<lambda>c. breadthFirst x g (descendInto x g travSt c)) children t" for t
      by (rule forChildren_cong) (simp_all add: visit)
    from neg have "depth travSt \<noteq> 0" by simp
    with deep show "breadthFirst x g ?st tr = breadthFirst x g travSt tr"
      unfolding breadthFirst_level' [OF dir nz dr] breadthFirst_level' [OF level(1-3)]
      by (simp add: Let_def dec dec' depth_update_facts children_def [symmetric] kids)
  qed
qed

text \<open>
  C1. A call on a directory with depth zero returns success and does nothing else. The
  call for a child gets the depth less one when the depth is positive, and the depth as
  it is when it is negative; the children of a level are visited by exactly these calls.
  So with a depth \<open>d\<close> of zero or more, every file that the call renders or requests the
  page of is at most \<open>d\<close> levels below the root; with depth zero that is the root alone
  (rendered when it is no directory; a directory is not even requested). With a negative
  depth nothing bounds the recursion: the call does what it would do with any positive
  depth greater than the number of levels below the root.
\<close>

theorem depth_gate:
  "(IsDir (travFile travSt) \<and> depth travSt = 0 \<longrightarrow> breadthFirst x g travSt tr = (True, tr))
   \<and> depth (descendInto x g travSt c)
       = (if 0 < depth travSt then depth travSt - 1 else depth travSt)
   \<and> (IsDir (travFile travSt) \<and> depth travSt \<noteq> 0
       \<and> drain x g (listing (travFile travSt)) [] (fetchTrace travSt tr) = (Some collector, tr')
       \<and> \<not> inTrash travSt \<and> \<not> InTrashOpt (opts g) \<and> explicitNoPrompt travSt
      \<longrightarrow> breadthFirst x g travSt tr =
            forChildren (\<lambda>c. breadthFirst x g (descendInto x g travSt c))
              (levelChildren x travSt collector) (renderedTrace x g travSt collector tr))
   \<and> (0 \<le> depth travSt \<longrightarrow>
        (\<exists>new. snd (breadthFirst x g travSt tr) = tr @ new
           \<and> visitsWithin (nat (depth travSt)) (travFile travSt) new))
   \<and> (depth travSt = 0 \<longrightarrow>
        (\<exists>new. snd (breadthFirst x g travSt tr) = tr @ new
           \<and> list_all (\<lambda>ev. eventFile ev = None \<or> eventFile ev = Some (travFile travSt)) new
           \<and> list_all (\<lambda>ev. ev \<noteq> Paginate (travFile travSt)) new))
   \<and> (depth travSt < 0 \<and> int (height (travFile travSt)) < n
      \<longrightarrow> breadthFirst x g (travSt\<lparr>depth := n\<rparr>) tr = breadthFirst x g travSt tr)"
proof -
  have 1: "breadthFirst x g travSt tr = (True, tr)"
    if "IsDir (travFile travSt)" "depth travSt = 0"
    using that by (rule breadthFirst_depth0)
  have 2: "depth (descendInto x g travSt c)
       = (if 0 < depth travSt then depth travSt - 1 else depth travSt)"
    by (simp add: descendInto_def childSt_def decrementDepth_def)
  have 3: "breadthFirst x g travSt tr =
            forChildren (\<lambda>c. breadthFirst x g (descendInto x g travSt c))
              (levelChildren x travSt collector) (renderedTrace x g travSt collector tr)"
    if "IsDir (travFile travSt)" "depth travSt \<noteq> 0"
      "drain x g (listing (travFile travSt)) [] (fetchTrace travSt tr) = (Some collector, tr')"
      "\<not> inTrash travSt" "\<not> InTrashOpt (opts g)" "explicitNoPrompt travSt"
    using that(4-6) breadthFirst_level' [OF that(1-3)]
    by (simp add: Let_def decrementDepth_def canPromptHere_def levelChildren_def
        renderedTrace_def)
  have 4: "\<exists>new. snd (breadthFirst x g travSt tr) = tr @ new
           \<and> visitsWithin (nat (depth travSt)) (travFile travSt) new"
    if "0 \<le> depth travSt"
    using that breadthFirst_within [of travSt x g tr] by simp
  have 5: "\<exists>new. snd (breadthFirst x g travSt tr) = tr @ new
           \<and> list_all (\<lambda>ev. eventFile ev = None \<or> eventFile ev = Some (travFile travSt)) new
           \<and> list_all (\<lambda>ev. ev \<noteq> Paginate (travFile travSt)) new"
    if "depth travSt = 0"
  proof (cases "IsDir (travFile travSt)")
    case True
    with that show ?thesis by (simp add: breadthFirst_depth0)
  next
    case False
    then show ?thesis by (simp add: breadthFirst_leaf eventFile_def)
  qed
  have 6: "breadthFirst x g (travSt\<lparr>depth := n\<rparr>) tr = breadthFirst x g travSt tr"
    if "depth travSt < 0" "int (height (travFile travSt)) < n"
    using that breadthFirst_unbounded [of travSt x g tr] by simp
  from 1 2 3 4 5 6 show ?thesis by blast
qed

lemma topDir_simps [simp]:
  "IsDir topDir" "IsDir subDir" "\<not> IsDir deepLeaf" "Name topDir = ''top''"
  "Name subDir = ''sub''" "Name deepLeaf = ''deep.txt''"
  "listing topDir = [FileRecv (Some leafA), FileRecv (Some subDir)]"
  "listing subDir = [FileRecv (Some deepLeaf)]" "listing deepLeaf = []" "listing leafA = []"
  by (simp_all add: topDir_def subDir_def deepLeaf_def leafA_def)

lemma height_topDir: "height topDir = 2"
proof -
  have "height deepLeaf = 0" "height leafA = 0"
    by (simp_all add: height.simps [of deepLeaf] height.simps [of leafA] childFiles_def)
  then have "height subDir = 1" by (simp add: height.simps [of subDir] childFiles_def)
  with \<open>height leafA = 0\<close> show ?thesis by (simp add: height.simps [of topDir] childFiles_def)
qed

lemma topSt_facts:
  "travFile (topSt d) = topDir" "depth (topSt d) = d" "inTrash (topSt d) = False"
  "explicitNoPrompt (topSt d) = True"
  "sortCollector x (decrementDepth (topSt d)) collector = collector"
  "levelAttr exampleExtern plainCommands (topSt d) =
     \<lparr>minimal = False, attrMask = 0, parent = ''/top'', diskUsageOnlyAttr = False\<rparr>"
  by (simp_all add: topSt_def decrementDepth_def sortCollector_def levelAttr_def
      newHeadPath_def initAttr_def rootLike_def sepJoin_def plainCommands_def
      exampleCommands_def exampleOpts_def exampleExtern_def exampleBits_def isMinimal_def
      diskUsageOnly_def)

lemma topSt_drain:
  "drain exampleExtern plainCommands (listing (travFile (topSt d))) [] (fetchTrace (topSt d) [])
     = (Some [leafA, subDir], fetchTrace (topSt d) [])"
  by (simp add: topSt_facts)
     (simp add: exampleExtern_def plainCommands_def exampleCommands_def exampleOpts_def)

lemma descendInto_subDir:
  "descendInto exampleExtern plainCommands (topSt d) subDir =
     \<lparr>travFile = subDir, headPath = ''/top'', depth = (if 0 < d then d - 1 else d),
      travMask = 0, inTrash = False, explicitNoPrompt = True, sortKeys = [],
      matchQueryOf = None\<rparr>"
  by (simp add: descendInto_def childSt_def topSt_facts)
     (simp add: topSt_def decrementDepth_def plainCommands_def exampleCommands_def
       exampleOpts_def)

lemma subDir_visit_unbounded:
  "breadthFirst exampleExtern plainCommands
     (descendInto exampleExtern plainCommands (topSt (- 1)) subDir) t =
     (True, t @ [SpinPause, SpinPlay, Paginate subDir,
        Pretty deepLeaf
          \<lparr>minimal = False, attrMask = 0, parent = ''/top/sub'', diskUsageOnlyAttr = False\<rparr>])"
  unfolding descendInto_subDir
  by (subst breadthFirst.simps)
     (simp add: Let_def decrementDepth_def sortCollector_def canPromptHere_def initAttr_def
       newHeadPath_def rootLike_def sepJoin_def plainCommands_def exampleCommands_def
       exampleOpts_def exampleExtern_def exampleBits_def isMinimal_def diskUsageOnly_def)

lemma subDir_visit_pruned:
  "breadthFirst exampleExtern plainCommands
     (descendInto exampleExtern plainCommands (topSt 1) subDir) t = (True, t)"
  by (rule breadthFirst_depth0) (simp_all add: descendInto_subDir)

theorem depth_gate_witness:
  "breadthFirst exampleExtern plainCommands (topSt 0) [] = (True, [])
   \<and> breadthFirst exampleExtern plainCommands (topSt 1) [] =
       (True,
        [SpinPause, SpinPlay, Paginate topDir,
         Pretty leafA \<lparr>minimal = False, attrMask = 0, parent = ''/top'', diskUsageOnlyAttr = False\<rparr>,
         Pretty subDir \<lparr>minimal = False, attrMask = 0, parent = ''/top'', diskUsageOnlyAttr = False\<rparr>])
   \<and> withinDepth 1 topDir = [topDir, leafA, subDir]
   \<and> breadthFirst exampleExtern plainCommands (topSt (- 1)) [] =
       (True,
        [SpinPause, SpinPlay, Paginate topDir,
         Pretty leafA \<lparr>minimal = False, attrMask = 0, parent = ''/top'', diskUsageOnlyAttr = False\<rparr>,
         Pretty subDir \<lparr>minimal = False, attrMask = 0, parent = ''/top'', diskUsageOnlyAttr = False\<rparr>,
         SpinPause, SpinPlay, Paginate subDir,
         Pretty deepLeaf
           \<lparr>minimal = False, attrMask = 0, parent = ''/top/sub'', diskUsageOnlyAttr = False\<rparr>])
   \<and> breadthFirst exampleExtern plainCommands (topSt 3) []
       = breadthFirst exampleExtern plainCommands (topSt (- 1)) []"
proof -
  have o: "InTrashOpt (opts plainCommands) = False" "TypeMask (opts plainCommands) = 0"
    "nonFolderExplicitly exampleExtern 0 = False"
    by (simp_all add: plainCommands_def exampleCommands_def exampleOpts_def exampleExtern_def)
  have r: "renderedTrace exampleExtern plainCommands (topSt d) [leafA, subDir] [] =
      [SpinPause, SpinPlay, Paginate topDir,
       Pretty leafA \<lparr>minimal = False, attrMask = 0, parent = ''/top'', diskUsageOnlyAttr = False\<rparr>,
       Pretty subDir \<lparr>minimal = False, attrMask = 0, parent = ''/top'', diskUsageOnlyAttr = False\<rparr>]"
    for d
    by (simp add: renderedTrace_def levelTrace_def fetchTrace_def shownEntries_def topSt_facts o)
  have c: "levelChildren exampleExtern (topSt d) [leafA, subDir] = [subDir]" for d
    by (simp add: levelChildren_def topSt_facts)
  have w: "withinDepth 1 topDir = [topDir, leafA, subDir]"
    by (simp add: childFiles_def)
  have a: "breadthFirst exampleExtern plainCommands (topSt 0) [] = (True, [])"
    using depth_gate [where travSt = "topSt 0" and x = exampleExtern and g = plainCommands
        and tr = "[]"]
    by (simp add: topSt_facts)
  have b: "breadthFirst exampleExtern plainCommands (topSt 1) [] =
       (True,
        [SpinPause, SpinPlay, Paginate topDir,
         Pretty leafA \<lparr>minimal = False, attrMask = 0, parent = ''/top'', diskUsageOnlyAttr = False\<rparr>,
         Pretty subDir \<lparr>minimal = False, attrMask = 0, parent = ''/top'', diskUsageOnlyAttr = False\<rparr>])"
    using depth_gate [where travSt = "topSt 1" and x = exampleExtern and g = plainCommands
        and tr = "[]" and collector = "[leafA, subDir]" and tr' = "fetchTrace (topSt 1) []"]
      topSt_drain [of 1]
    by (simp add: topSt_facts o r c subDir_visit_pruned)
  have u: "breadthFirst exampleExtern plainCommands (topSt (- 1)) [] =
       (True,
        [SpinPause, SpinPlay, Paginate topDir,
         Pretty leafA \<lparr>minimal = False, attrMask = 0, parent = ''/top'', diskUsageOnlyAttr = False\<rparr>,
         Pretty subDir \<lparr>minimal = False, attrMask = 0, parent = ''/top'', diskUsageOnlyAttr = False\<rparr>,
         SpinPause, SpinPlay, Paginate subDir,
         Pretty deepLeaf
           \<lparr>minimal = False, attrMask = 0, parent = ''/top/sub'', diskUsageOnlyAttr = False\<rparr>])"
    using depth_gate [where travSt = "topSt (- 1)" and x = exampleExtern and g = plainCommands
        and tr = "[]" and collector = "[leafA, subDir]" and tr' = "fetchTrace (topSt (- 1)) []"]
      topSt_drain [of "- 1"]
    by (simp add: topSt_facts o r c subDir_visit_unbounded)
  have "topSt (- 1)\<lparr>depth := 3\<rparr> = topSt 3" by (simp add: topSt_def)
  with depth_gate [where travSt = "topSt (- 1)" and x = exampleExtern and g = plainCommands
        and tr = "[]" and n = 3]
  have e: "breadthFirst exampleExtern plainCommands (topSt 3) []
       = breadthFirst exampleExtern plainCommands (topSt (- 1)) []"
    by (simp add: topSt_facts height_topDir)
  from a b w u e show ?thesis by simp
qed

end
